theory Spec2Isabelle
  imports Main
begin

section \<open>JavaScript values\<close>

text \<open>
  The arguments of \<^verbatim>\<open>send\<close> and \<^verbatim>\<open>receive\<close> and the decoded inbound messages are
  arbitrary JavaScript values. Numbers are restricted to the integers and \<^verbatim>\<open>NaN\<close>
  (the code only looks at their truthiness and their string form); symbols and bigints
  are left out. An object is the finite map of its own enumerable properties; the order
  of the keys, which only the serialised text shows, is not modelled.
\<close>

datatype jsval =
    JUndefined
  | JNull
  | JBool bool
  | JNum int
  | JNaN
  | JStr string
  | JFunction string
  | JArray "jsval list"
  | JObject "string \<Rightarrow> jsval option"

text \<open>\<^verbatim>\<open>!!v\<close>: the falsy values are undefined, null, false, 0, NaN and the empty string.\<close>

fun truthy :: "jsval \<Rightarrow> bool" where
  "truthy JUndefined = False"
| "truthy JNull = False"
| "truthy (JBool b) = b"
| "truthy (JNum i) = (i \<noteq> 0)"
| "truthy JNaN = False"
| "truthy (JStr s) = (s \<noteq> [])"
| "truthy (JFunction src) = True"
| "truthy (JArray xs) = True"
| "truthy (JObject m) = True"

text \<open>\<^verbatim>\<open>typeof v\<close>. Null and arrays are of type \<^verbatim>\<open>'object'\<close>.\<close>

fun typeof :: "jsval \<Rightarrow> string" where
  "typeof JUndefined = ''undefined''"
| "typeof JNull = ''object''"
| "typeof (JBool b) = ''boolean''"
| "typeof (JNum i) = ''number''"
| "typeof JNaN = ''number''"
| "typeof (JStr s) = ''string''"
| "typeof (JFunction src) = ''function''"
| "typeof (JArray xs) = ''object''"
| "typeof (JObject m) = ''object''"

definition digit :: "nat \<Rightarrow> char" where
  "digit d = ''0123456789'' ! d"

fun nat_str :: "nat \<Rightarrow> string" where
  "nat_str n = (if n < 10 then [digit n] else nat_str (n div 10) @ [digit (n mod 10)])"

fun join :: "string \<Rightarrow> string list \<Rightarrow> string" where
  "join sep [] = []"
| "join sep [s] = s"
| "join sep (s # t # ss) = s @ sep @ join sep (t # ss)"

text \<open>
  The string a template literal \<^verbatim>\<open>`${v}`\<close> inserts. A function gives its source text,
  which the value carries; an array joins its elements with commas, null and undefined
  elements giving the empty string.
\<close>

fun to_string :: "jsval \<Rightarrow> string" where
  "to_string JUndefined = ''undefined''"
| "to_string JNull = ''null''"
| "to_string (JBool b) = (if b then ''true'' else ''false'')"
| "to_string (JNum i) = (if i < 0 then CHR ''-'' # nat_str (nat (- i)) else nat_str (nat i))"
| "to_string JNaN = ''NaN''"
| "to_string (JStr s) = s"
| "to_string (JFunction src) = src"
| "to_string (JArray xs) =
     join '','' (map (\<lambda>x. case x of JUndefined \<Rightarrow> [] | JNull \<Rightarrow> [] | _ \<Rightarrow> to_string x) xs)"
| "to_string (JObject m) = ''[object Object]''"

text \<open>
  The own enumerable properties that \<^verbatim>\<open>{...v}\<close> copies: those of an object, the
  index keys of an array, the characters of a string, and nothing for any other value.
\<close>

fun spread :: "jsval \<Rightarrow> string \<Rightarrow> jsval option" where
  "spread (JObject m) = m"
| "spread (JArray xs) = map_of (zip (map nat_str [0..<length xs]) xs)"
| "spread (JStr s) = map_of (zip (map nat_str [0..<length s]) (map (\<lambda>c. JStr [c]) s))"
| "spread v = Map.empty"

text \<open>
  \<^verbatim>\<open>v.type\<close>: reading a property of null or undefined throws a TypeError (\<open>None\<close>);
  a missing property reads as undefined. Of the values other than objects none has a
  property of this name.
\<close>

fun get_type :: "jsval \<Rightarrow> jsval option" where
  "get_type JUndefined = None"
| "get_type JNull = None"
| "get_type (JObject m) = (case m ''type'' of None \<Rightarrow> Some JUndefined | Some v \<Rightarrow> Some v)"
| "get_type v = Some JUndefined"

section \<open>The client, its channels and what it does to the outside\<close>

type_synonym handle = nat

text \<open>
  A thrown value. \<open>Error msg\<close> is \<^verbatim>\<open>new Error(msg)\<close> created by the class itself;
  \<open>Thrown msg\<close> is an exception that comes out of a collaborator (the channel's
  \<^verbatim>\<open>send\<close>, the dynamic import).
\<close>

datatype exn = Error string | Thrown string

definition AlreadyConnected :: exn where
  "AlreadyConnected = Error ''Already connected''"

definition NotConnected :: exn where
  "NotConnected = Error ''RealtimeAPI is not connected''"

definition InvalidPayload :: exn where
  "InvalidPayload = Error ''data must be an object''"

text \<open>
  What the client does to its collaborators, in the order it does it: constructing a
  WebSocket, writing the serialised envelope to it (the effect holds the value given to
  \<^verbatim>\<open>JSON.stringify\<close>), closing it, calling \<^verbatim>\<open>this.dispatch\<close>, printing to the
  console (the effect holds the arguments of \<^verbatim>\<open>log\<close>; the time stamp put in front and
  the pretty-printing of objects are not modelled), and an exception that leaves a
  callback uncaught.
\<close>

datatype effect =
    NewWebSocket handle string
  | WsSend handle jsval
  | WsClose handle
  | Dispatch string jsval
  | ConsoleLog "jsval list"
  | Uncaught string

datatype readyState = CONNECTING | OPEN | CLOSING | CLOSED

text \<open>
  The five closures that \<^verbatim>\<open>connect\<close> registers on a WebSocket. Each one captures the
  client, the WebSocket, the URL and the \<^verbatim>\<open>resolve\<close>/\<^verbatim>\<open>reject\<close> pair of its call.
\<close>

datatype listener =
    MessageHandler
  | ConnectionErrorHandler
  | OpenHandler
  | PostOpenErrorHandler
  | PostOpenCloseHandler

datatype promise = Pending | Fulfilled | Rejected exn

record websocket =
  ws_url :: string
  readyState :: readyState
  call :: nat
  on_message :: "listener list"
  on_error :: "listener list"
  on_open :: "listener list"
  on_close :: "listener list"

text \<open>
  The fields of the \<^verbatim>\<open>RealtimeAPI\<close> object (\<open>resourceName\<close> to \<open>ws\<close>) and the
  world around it: whether \<^verbatim>\<open>globalThis.document\<close> exists, every WebSocket constructed
  so far (a handle is the index of its construction, so two handles are the same object
  iff they are equal), the promise of every \<^verbatim>\<open>connect\<close> call that got past its guard,
  the calls that wait for the dynamic import, and the effects so far.
\<close>

record world =
  resourceName :: string
  deploymentName :: string
  url :: string
  debug :: bool
  ws :: "handle option"
  document :: bool
  sockets :: "websocket list"
  promises :: "promise list"
  importing :: "nat list"
  trace :: "effect list"

text \<open>
  The two source files are the same text except for three constants: the resource name
  and the deployment name set by the constructor, and the api key written into the
  URL that \<^verbatim>\<open>connect\<close> builds. The model takes them as a parameter.
\<close>

record target =
  t_resourceName :: string
  t_deploymentName :: string
  t_apiKey :: string

definition lib_api :: target where
  "lib_api = \<lparr> t_resourceName = ''whywa-m1vsn982-eastus2'',
               t_deploymentName = ''gpt-4o-realtime-preview'',
               t_apiKey = ''714bf367d68b4b52a00ff66e42c1cc22'' \<rparr>"

definition part_000 :: target where
  "part_000 = \<lparr> t_resourceName = ''agawal-resource'',
                t_deploymentName = ''gpt-4o-mini-realtime-preview'',
                t_apiKey = ''3QLKDZPDjoPQfXTBg8ScfYzm3dLdpGvO6E8agnnr8ORNqSCAKAmzJQQJ99BHACHYHv6XJ3w3AAAAACOGSaRH'' \<rparr>"

text \<open>
  \<^verbatim>\<open>constructor({ debug } = {})\<close>, in a world with or without a document.
\<close>

definition constructor :: "target \<Rightarrow> jsval \<Rightarrow> bool \<Rightarrow> world" where
  "constructor t dbg doc =
     \<lparr> resourceName = t_resourceName t,
       deploymentName = t_deploymentName t,
       url = ''wss://'' @ t_resourceName t @ ''.openai.azure.com/openai/realtime'',
       debug = truthy dbg,
       ws = None,
       document = doc,
       sockets = [],
       promises = [],
       importing = [],
       trace = [] \<rparr>"

definition isConnected :: "world \<Rightarrow> bool" where
  "isConnected w = (ws w \<noteq> None)"

definition emit :: "effect \<Rightarrow> world \<Rightarrow> world" where
  "emit e w = w\<lparr>trace := trace w @ [e]\<rparr>"

text \<open>\<^verbatim>\<open>log(...args)\<close> prints only when \<open>debug\<close> is set and returns true.\<close>

definition log :: "jsval list \<Rightarrow> world \<Rightarrow> bool \<times> world" where
  "log args w = (True, if debug w then emit (ConsoleLog args) w else w)"

text \<open>
  Modelled from the spec: \<^verbatim>\<open>dispatch\<close> of the event dispatcher the class extends
  (\<^verbatim>\<open>event_handler.js\<close>, not among the sources). It invokes the listeners registered
  for the name and returns a success indicator. The call is recorded as an effect;
  listeners are observers, they neither throw into the client nor call back into it.
\<close>

definition dispatch :: "string \<Rightarrow> jsval \<Rightarrow> world \<Rightarrow> bool \<times> world" where
  "dispatch eventName event w = (True, emit (Dispatch eventName event) w)"

text \<open>
  The WebSocket itself belongs to the platform. \<^verbatim>\<open>ws.close()\<close> starts the closing
  handshake of a channel that is connecting or open and does nothing to one that is
  closing or closed; it does not throw.
\<close>

definition map_socket :: "handle \<Rightarrow> (websocket \<Rightarrow> websocket) \<Rightarrow> world \<Rightarrow> world" where
  "map_socket h f w = w\<lparr>sockets := (sockets w)[h := f (sockets w ! h)]\<rparr>"

fun closing :: "readyState \<Rightarrow> readyState" where
  "closing CONNECTING = CLOSING"
| "closing OPEN = CLOSING"
| "closing CLOSING = CLOSING"
| "closing CLOSED = CLOSED"

definition ws_close :: "handle \<Rightarrow> world \<Rightarrow> world" where
  "ws_close h w = emit (WsClose h) (map_socket h (\<lambda>s. s\<lparr>readyState := closing (readyState s)\<rparr>) w)"

text \<open>
  \<^verbatim>\<open>disconnect(ws)\<close>. The argument is absent (\<open>None\<close>; any falsy value behaves so) or
  a WebSocket. The method returns true from inside the \<^verbatim>\<open>if\<close> and falls off its end,
  returning undefined, otherwise.
\<close>

definition disconnect :: "handle option \<Rightarrow> world \<Rightarrow> jsval \<times> world" where
  "disconnect wsarg w =
     (if wsarg = None \<or> ws w = wsarg then
        let w = (case ws w of None \<Rightarrow> w | Some h \<Rightarrow> ws_close h w);
            w = w\<lparr>ws := None\<rparr>
        in (JBool True, w)
      else (JUndefined, w))"

text \<open>\<^verbatim>\<open>receive(eventName, event)\<close>.\<close>

definition receive :: "jsval \<Rightarrow> jsval \<Rightarrow> world \<Rightarrow> bool \<times> world" where
  "receive eventName event w =
     (let w = snd (log [JStr ''received:'', eventName, event] w);
          w = snd (dispatch (''server.'' @ to_string eventName) event w);
          w = snd (dispatch ''server.*'' event w)
      in (True, w))"

text \<open>
  \<^verbatim>\<open>send(eventName, data)\<close>. Two collaborators are parameters: \<open>generateId\<close> is
  \<^verbatim>\<open>RealtimeUtils.generateId\<close> as it answers in this call (\<^verbatim>\<open>utils.js\<close> is not among
  the sources), and \<open>wr\<close> is the exception that the channel's \<^verbatim>\<open>send\<close> throws in this
  call, if it throws. Reading \<^verbatim>\<open>this.ws.send\<close> with no channel owned is a TypeError.
\<close>

definition send ::
  "jsval \<Rightarrow> jsval \<Rightarrow> (string \<Rightarrow> string) \<Rightarrow> string option \<Rightarrow> world \<Rightarrow> (exn + bool) \<times> world" where
  "send eventName data generateId wr w =
     (if \<not> isConnected w then (Inl (Error ''RealtimeAPI is not connected''), w)
      else
        let data = (if truthy data then data else JObject Map.empty) in
        if typeof data \<noteq> ''object'' then (Inl (Error ''data must be an object''), w)
        else
          let event = JObject ([''event_id'' \<mapsto> JStr (generateId ''evt_''),
                                ''type'' \<mapsto> eventName] ++ spread data);
              w = snd (dispatch (''client.'' @ to_string eventName) event w);
              w = snd (dispatch ''client.*'' event w);
              w = snd (log [JStr ''sent:'', eventName, event] w)
          in (case ws w of
                None \<Rightarrow> (Inl (Thrown ''TypeError''), w)
              | Some h \<Rightarrow>
                  (case wr of
                     Some e \<Rightarrow> (Inl (Thrown e), w)
                   | None \<Rightarrow> (Inr True, emit (WsSend h event) w))))"

text \<open>
  \<^verbatim>\<open>connect()\<close>. The guard comes first in both branches. In a browser the WebSocket is
  constructed and wired in the same turn. Under Node the call first awaits the import
  of the \<^verbatim>\<open>ws\<close> module, so the WebSocket is constructed in a later turn
  (\<open>import_done\<close>), or the call fails with what the import throws (\<open>import_failed\<close>).
  The result is the error of a promise rejected at once, or the number of the promise
  returned.
\<close>

definition fullUrl :: "target \<Rightarrow> world \<Rightarrow> string" where
  "fullUrl t w =
     url w @ ''?api-version=2024-10-01-preview&deployment='' @ deploymentName w
       @ ''&api-key='' @ t_apiKey t"

definition new_websocket :: "target \<Rightarrow> nat \<Rightarrow> world \<Rightarrow> world" where
  "new_websocket t p w =
     (let h = length (sockets w);
          s = \<lparr> ws_url = fullUrl t w, readyState = CONNECTING, call = p,
                on_message = [MessageHandler],
                on_error = [ConnectionErrorHandler],
                on_open = [OpenHandler],
                on_close = [] \<rparr>
      in emit (NewWebSocket h (fullUrl t w)) (w\<lparr>sockets := sockets w @ [s]\<rparr>))"

definition connect :: "target \<Rightarrow> world \<Rightarrow> (exn + nat) \<times> world" where
  "connect t w =
     (if isConnected w then (Inl (Error ''Already connected''), w)
      else
        let p = length (promises w);
            w = w\<lparr>promises := promises w @ [Pending]\<rparr>
        in if document w then (Inr p, new_websocket t p w)
           else (Inr p, w\<lparr>importing := importing w @ [p]\<rparr>))"

definition resolve :: "nat \<Rightarrow> world \<Rightarrow> world" where
  "resolve p w =
     w\<lparr>promises := (promises w)[p := (case promises w ! p of Pending \<Rightarrow> Fulfilled | r \<Rightarrow> r)]\<rparr>"

definition reject :: "nat \<Rightarrow> exn \<Rightarrow> world \<Rightarrow> world" where
  "reject p e w =
     w\<lparr>promises := (promises w)[p := (case promises w ! p of Pending \<Rightarrow> Rejected e | r \<Rightarrow> r)]\<rparr>"

definition import_done :: "target \<Rightarrow> nat \<Rightarrow> world \<Rightarrow> world" where
  "import_done t p w = new_websocket t p (w\<lparr>importing := remove1 p (importing w)\<rparr>)"

definition import_failed :: "nat \<Rightarrow> string \<Rightarrow> world \<Rightarrow> world" where
  "import_failed p e w = reject p (Thrown e) (w\<lparr>importing := remove1 p (importing w)\<rparr>)"

subsection \<open>The callbacks of a channel\<close>

text \<open>
  What a WebSocket delivers: open, a message (the result of \<^verbatim>\<open>JSON.parse\<close> on its
  text, \<open>None\<close> when that throws), an error (the value of its \<^verbatim>\<open>message\<close> property),
  close.
\<close>

datatype wsevent = EvOpen | EvMessage "jsval option" | EvError jsval | EvClose

text \<open>
  One listener of channel \<open>h\<close>, run on an event. The URL in the messages and the
  promise that is resolved or rejected are the ones the closure captured: those the
  channel was constructed with. A listener is registered for one kind of event only;
  the last equation stands for the pairings that do not occur.
\<close>

fun run_listener :: "listener \<Rightarrow> handle \<Rightarrow> wsevent \<Rightarrow> world \<Rightarrow> world" where
  "run_listener MessageHandler h (EvMessage None) w = emit (Uncaught ''SyntaxError'') w"
| "run_listener MessageHandler h (EvMessage (Some message)) w =
     (case get_type message of
        None \<Rightarrow> emit (Uncaught ''TypeError'') w
      | Some ty \<Rightarrow> snd (receive ty message w))"
| "run_listener ConnectionErrorHandler h (EvError m) w =
     (let u = ws_url (sockets w ! h);
          p = call (sockets w ! h);
          w = snd (disconnect (Some h) w)
      in reject p (Error (''Could not connect to \"'' @ u @ ''\": '' @ to_string m)) w)"
| "run_listener OpenHandler h EvOpen w =
     (let u = ws_url (sockets w ! h);
          p = call (sockets w ! h);
          w = snd (log [JStr (''Connected to \"'' @ u @ ''\"'')] w);
          w = map_socket h (\<lambda>s. s\<lparr>on_error := remove1 ConnectionErrorHandler (on_error s)\<rparr>) w;
          w = map_socket h (\<lambda>s. s\<lparr>on_error := on_error s @ [PostOpenErrorHandler]\<rparr>) w;
          w = map_socket h (\<lambda>s. s\<lparr>on_close := on_close s @ [PostOpenCloseHandler]\<rparr>) w;
          w = w\<lparr>ws := Some h\<rparr>
      in resolve p w)"
| "run_listener PostOpenErrorHandler h (EvError m) w =
     (let u = ws_url (sockets w ! h);
          w = snd (disconnect (Some h) w);
          w = snd (log [JStr (''Error, disconnected from \"'' @ u @ ''\": '' @ to_string m)] w)
      in snd (dispatch ''close'' (JObject [''error'' \<mapsto> JBool True]) w))"
| "run_listener PostOpenCloseHandler h EvClose w =
     (let u = ws_url (sockets w ! h);
          w = snd (disconnect (Some h) w);
          w = snd (log [JStr (''Disconnected from \"'' @ u @ ''\"'')] w)
      in snd (dispatch ''close'' (JObject [''error'' \<mapsto> JBool False]) w))"
| "run_listener l h ev w = w"

fun listeners_of :: "wsevent \<Rightarrow> websocket \<Rightarrow> listener list" where
  "listeners_of EvOpen s = on_open s"
| "listeners_of (EvMessage m) s = on_message s"
| "listeners_of (EvError m) s = on_error s"
| "listeners_of EvClose s = on_close s"

text \<open>
  The platform's side of an event: a channel opens out of the connecting state, an
  error fails the connection (the channel is on its way to closed), close ends it.
\<close>

fun arrive :: "wsevent \<Rightarrow> readyState \<Rightarrow> readyState" where
  "arrive EvOpen r = OPEN"
| "arrive (EvMessage m) r = r"
| "arrive (EvError m) r = closing r"
| "arrive EvClose r = CLOSED"

text \<open>
  The channel \<open>h\<close> delivers an event: the listeners registered for its kind when the
  event arrives run in the order of their registration.
\<close>

definition fire :: "handle \<Rightarrow> wsevent \<Rightarrow> world \<Rightarrow> world" where
  "fire h ev w =
     (let w = map_socket h (\<lambda>s. s\<lparr>readyState := arrive ev (readyState s)\<rparr>) w
      in fold (\<lambda>l. run_listener l h ev) (listeners_of ev (sockets w ! h)) w)"

subsection \<open>Turns of the event loop\<close>

text \<open>
  The client runs on one thread: every call of a method and every callback is one
  uninterrupted turn, except \<^verbatim>\<open>connect\<close> under Node, which is two.
\<close>

datatype action =
    Connect
  | ImportDone nat
  | ImportFailed nat string
  | Disconnect "handle option"
  | Receive jsval jsval
  | Send jsval jsval "string \<Rightarrow> string" "string option"
  | Log "jsval list"
  | Event handle wsevent

fun step :: "target \<Rightarrow> action \<Rightarrow> world \<Rightarrow> world" where
  "step t Connect w = snd (connect t w)"
| "step t (ImportDone p) w = import_done t p w"
| "step t (ImportFailed p e) w = import_failed p e w"
| "step t (Disconnect wsarg) w = snd (disconnect wsarg w)"
| "step t (Receive eventName event) w = snd (receive eventName event w)"
| "step t (Send eventName data generateId wr) w = snd (send eventName data generateId wr w)"
| "step t (Log args) w = snd (log args w)"
| "step t (Event h ev) w = fire h ev w"

text \<open>
  What the platform can do: an import ends for a call that waits for it; a channel
  that exists opens at most once and only while connecting, delivers messages while
  open or closing, and delivers nothing after its close event. The client's methods
  can be called at any time, \<^verbatim>\<open>disconnect\<close> with any WebSocket that exists.
\<close>

fun enabled :: "action \<Rightarrow> world \<Rightarrow> bool" where
  "enabled (ImportDone p) w = (p \<in> set (importing w))"
| "enabled (ImportFailed p e) w = (p \<in> set (importing w))"
| "enabled (Disconnect (Some h)) w = (h < length (sockets w))"
| "enabled (Event h EvOpen) w = (h < length (sockets w) \<and> readyState (sockets w ! h) = CONNECTING)"
| "enabled (Event h (EvMessage m)) w =
     (h < length (sockets w) \<and> (readyState (sockets w ! h) = OPEN \<or> readyState (sockets w ! h) = CLOSING))"
| "enabled (Event h ev) w = (h < length (sockets w) \<and> readyState (sockets w ! h) \<noteq> CLOSED)"
| "enabled a w = True"

text \<open>A callback comes from a channel that exists.\<close>

fun addressed :: "action \<Rightarrow> world \<Rightarrow> bool" where
  "addressed (Event h ev) w = (h < length (sockets w))"
| "addressed a w = True"

fun run :: "target \<Rightarrow> action list \<Rightarrow> world \<Rightarrow> world" where
  "run t [] w = w"
| "run t (a # as) w = run t as (step t a w)"

fun admissible :: "target \<Rightarrow> action list \<Rightarrow> world \<Rightarrow> bool" where
  "admissible t [] w = True"
| "admissible t (a # as) w = (enabled a w \<and> admissible t as (step t a w))"

inductive reachable :: "target \<Rightarrow> world \<Rightarrow> bool" for t :: target where
  init: "reachable t (constructor t dbg doc)"
| step: "reachable t w \<Longrightarrow> enabled a w \<Longrightarrow> reachable t (step t a w)"

section \<open>Observations and invariants\<close>

text \<open>The effects of one turn, and what they dispatch, write and construct.\<close>

definition new_effects :: "world \<Rightarrow> world \<Rightarrow> effect list" where
  "new_effects w w' = drop (length (trace w)) (trace w')"

fun dispatched :: "effect list \<Rightarrow> (string \<times> jsval) list" where
  "dispatched [] = []"
| "dispatched (Dispatch n p # es) = (n, p) # dispatched es"
| "dispatched (e # es) = dispatched es"

fun written :: "effect list \<Rightarrow> (handle \<times> jsval) list" where
  "written [] = []"
| "written (WsSend h v # es) = (h, v) # written es"
| "written (e # es) = written es"

fun constructed :: "effect list \<Rightarrow> handle list" where
  "constructed [] = []"
| "constructed (NewWebSocket h u # es) = h # constructed es"
| "constructed (e # es) = constructed es"

fun is_open :: "action \<Rightarrow> bool" where
  "is_open (Event h EvOpen) = True"
| "is_open a = False"

text \<open>
  A channel is wired the way \<^verbatim>\<open>connect\<close> left it (\<open>pending\<close>) or the way its open
  callback left it (\<open>opened\<close>).
\<close>

definition pending :: "websocket \<Rightarrow> bool" where
  "pending s = (on_error s = [ConnectionErrorHandler] \<and> on_close s = [])"

definition opened :: "websocket \<Rightarrow> bool" where
  "opened s = (on_error s = [PostOpenErrorHandler] \<and> on_close s = [PostOpenCloseHandler]
     \<and> readyState s \<noteq> CONNECTING)"

definition wired :: "websocket \<Rightarrow> bool" where
  "wired s = (on_message s = [MessageHandler] \<and> on_open s = [OpenHandler] \<and> (pending s \<or> opened s))"

definition owned_open :: "world \<Rightarrow> bool" where
  "owned_open w = (\<forall>h. ws w = Some h \<longrightarrow>
       h < length (sockets w) \<and> opened (sockets w ! h) \<and> readyState (sockets w ! h) = OPEN)"

definition consistent :: "world \<Rightarrow> bool" where
  "consistent w = (list_all wired (sockets w) \<and> owned_open w)"

text \<open>
  The promise of a \<^verbatim>\<open>connect\<close> call belongs to that call alone; it is pending while
  the call waits for the import or its channel is connecting, and fulfilled once the
  channel's open callback has rewired the channel.
\<close>

definition promised :: "world \<Rightarrow> bool" where
  "promised w =
     ((\<forall>i < length (sockets w). \<forall>j < length (sockets w).
          i \<noteq> j \<longrightarrow> call (sockets w ! i) \<noteq> call (sockets w ! j))
      \<and> distinct (importing w)
      \<and> (\<forall>i < length (sockets w). call (sockets w ! i) \<notin> set (importing w))
      \<and> (\<forall>p \<in> set (importing w). p < length (promises w) \<and> promises w ! p = Pending)
      \<and> (\<forall>i < length (sockets w).
            call (sockets w ! i) < length (promises w)
            \<and> (readyState (sockets w ! i) = CONNECTING \<longrightarrow> promises w ! call (sockets w ! i) = Pending)
            \<and> (on_error (sockets w ! i) = [PostOpenErrorHandler]
                 \<longrightarrow> promises w ! call (sockets w ! i) = Fulfilled)))"

text \<open>The fields of the \<^verbatim>\<open>RealtimeAPI\<close> object itself.\<close>

definition this_fields :: "world \<Rightarrow> string \<times> string \<times> string \<times> bool \<times> handle option" where
  "this_fields w = (resourceName w, deploymentName w, url w, debug w, ws w)"

subsection \<open>Equivalence of the two source files\<close>

text \<open>
  Two strings are the same but for the connection URL: they are equal, or one holds
  the URL \<open>a\<close> where the other holds the URL \<open>b\<close>.
\<close>

definition same_but :: "string \<Rightarrow> string \<Rightarrow> string \<Rightarrow> string \<Rightarrow> bool" where
  "same_but a b s s' = (s = s' \<or> (\<exists>pre post. s = pre @ a @ post \<and> s' = pre @ b @ post))"

text \<open>Channels, promises and effects that are the same but for the URL.\<close>

definition rel_socket :: "string \<Rightarrow> string \<Rightarrow> websocket \<Rightarrow> websocket \<Rightarrow> bool" where
  "rel_socket a b s s' =
     (same_but a b (ws_url s) (ws_url s') \<and> readyState s = readyState s' \<and> call s = call s'
      \<and> on_message s = on_message s' \<and> on_error s = on_error s'
      \<and> on_open s = on_open s' \<and> on_close s = on_close s')"

definition rel_promise :: "string \<Rightarrow> string \<Rightarrow> promise \<Rightarrow> promise \<Rightarrow> bool" where
  "rel_promise a b p p' =
     (p = p' \<or> (\<exists>s s'. p = Rejected (Error s) \<and> p' = Rejected (Error s') \<and> same_but a b s s'))"

definition rel_effect :: "string \<Rightarrow> string \<Rightarrow> effect \<Rightarrow> effect \<Rightarrow> bool" where
  "rel_effect a b e e' =
     (e = e'
      \<or> (\<exists>h u u'. e = NewWebSocket h u \<and> e' = NewWebSocket h u' \<and> same_but a b u u')
      \<or> (\<exists>s s'. e = ConsoleLog [JStr s] \<and> e' = ConsoleLog [JStr s'] \<and> same_but a b s s'))"

text \<open>
  Worlds that are the same but for the URL: the three target fields of the client are
  left open, everything else agrees, up to the URL where a channel, a promise or an
  effect holds it.
\<close>

definition rel_world :: "string \<Rightarrow> string \<Rightarrow> world \<Rightarrow> world \<Rightarrow> bool" where
  "rel_world a b w w' =
     (debug w = debug w' \<and> ws w = ws w' \<and> document w = document w' \<and> importing w = importing w'
      \<and> list_all2 (rel_socket a b) (sockets w) (sockets w')
      \<and> list_all2 (rel_promise a b) (promises w) (promises w')
      \<and> list_all2 (rel_effect a b) (trace w) (trace w'))"

text \<open>
  A world of a client built for \<open>t\<close> and a world of a client built for \<open>t'\<close> are
  equivalent when they are the same but for their connection URLs.
\<close>

definition equivalent :: "target \<Rightarrow> target \<Rightarrow> world \<Rightarrow> world \<Rightarrow> bool" where
  "equivalent t t' w w' = rel_world (fullUrl t w) (fullUrl t' w') w w'"

subsection \<open>Example worlds\<close>

text \<open>
  Worlds of a browser run: constructed, after \<^verbatim>\<open>connect()\<close>, after the channel
  opened, and after a disconnect and a second connect whose channel opened.
\<close>

definition fresh :: world where
  "fresh = constructor lib_api JUndefined True"

definition connecting :: world where
  "connecting = run lib_api [Connect] fresh"

definition connected :: world where
  "connected = run lib_api [Connect, Event 0 EvOpen] fresh"

definition reconnected :: world where
  "reconnected = run lib_api [Connect, Event 0 EvOpen, Disconnect None, Connect, Event 1 EvOpen] fresh"

text \<open>An id generator for the examples.\<close>

definition sample_id :: "string \<Rightarrow> string" where
  "sample_id prefix = prefix @ ''0001''"

section \<open>Lemmas\<close>

lemmas ops = emit_def log_def dispatch_def disconnect_def receive_def send_def connect_def
  new_websocket_def resolve_def reject_def import_done_def import_failed_def map_socket_def ws_close_def
  isConnected_def

subsection \<open>What each operation leaves alone\<close>

lemma emit_frame [simp]:
  "ws (emit e w) = ws w" "sockets (emit e w) = sockets w" "promises (emit e w) = promises w"
  "importing (emit e w) = importing w" "debug (emit e w) = debug w" "document (emit e w) = document w"
  "url (emit e w) = url w" "deploymentName (emit e w) = deploymentName w"
  "resourceName (emit e w) = resourceName w" "trace (emit e w) = trace w @ [e]"
  by (simp_all add: emit_def)

lemma log_frame [simp]:
  "ws (snd (log a w)) = ws w" "sockets (snd (log a w)) = sockets w" "promises (snd (log a w)) = promises w"
  "importing (snd (log a w)) = importing w" "debug (snd (log a w)) = debug w"
  "document (snd (log a w)) = document w"
  "url (snd (log a w)) = url w" "deploymentName (snd (log a w)) = deploymentName w"
  "resourceName (snd (log a w)) = resourceName w"
  "trace (snd (log a w)) = trace w @ (if debug w then [ConsoleLog a] else [])"
  by (simp_all add: log_def)

lemma dispatch_frame [simp]:
  "ws (snd (dispatch n p w)) = ws w" "sockets (snd (dispatch n p w)) = sockets w"
  "promises (snd (dispatch n p w)) = promises w"
  "importing (snd (dispatch n p w)) = importing w" "debug (snd (dispatch n p w)) = debug w"
  "document (snd (dispatch n p w)) = document w"
  "url (snd (dispatch n p w)) = url w" "deploymentName (snd (dispatch n p w)) = deploymentName w"
  "resourceName (snd (dispatch n p w)) = resourceName w"
  "trace (snd (dispatch n p w)) = trace w @ [Dispatch n p]"
  by (simp_all add: dispatch_def)

lemma receive_frame [simp]:
  "ws (snd (receive n p w)) = ws w" "sockets (snd (receive n p w)) = sockets w"
  "promises (snd (receive n p w)) = promises w"
  "importing (snd (receive n p w)) = importing w" "debug (snd (receive n p w)) = debug w"
  "document (snd (receive n p w)) = document w"
  "url (snd (receive n p w)) = url w" "deploymentName (snd (receive n p w)) = deploymentName w"
  "resourceName (snd (receive n p w)) = resourceName w"
  by (simp_all add: receive_def Let_def)

lemma send_frame [simp]:
  "ws (snd (send n d g wr w)) = ws w" "sockets (snd (send n d g wr w)) = sockets w"
  "promises (snd (send n d g wr w)) = promises w"
  "importing (snd (send n d g wr w)) = importing w" "debug (snd (send n d g wr w)) = debug w"
  "document (snd (send n d g wr w)) = document w"
  "url (snd (send n d g wr w)) = url w" "deploymentName (snd (send n d g wr w)) = deploymentName w"
  "resourceName (snd (send n d g wr w)) = resourceName w"
  by (simp_all add: send_def Let_def split: option.splits)

lemma consistent_frame: "sockets w' = sockets w \<Longrightarrow> ws w' = ws w \<Longrightarrow> consistent w \<Longrightarrow> consistent w'"
  by (simp add: consistent_def owned_open_def)

lemma list_all_update: "list_all P xs \<Longrightarrow> P x \<Longrightarrow> list_all P (xs[i := x])"
  by (metis list_all_iff set_update_subset_insert subsetD insertE)

lemma consistent_init: "consistent (constructor t dbg doc)"
  by (simp add: consistent_def constructor_def owned_open_def)

lemma consistent_connect: "consistent w \<Longrightarrow> consistent (snd (connect t w))"
  by (auto simp: consistent_def owned_open_def connect_def new_websocket_def isConnected_def Let_def wired_def pending_def)

lemma consistent_import_done: "consistent w \<Longrightarrow> consistent (import_done t p w)"
  by (auto simp: consistent_def owned_open_def import_done_def new_websocket_def Let_def wired_def pending_def nth_append split: option.splits)

lemma consistent_import_failed: "consistent w \<Longrightarrow> consistent (import_failed p e w)"
  by (rule consistent_frame [of _ w]) (simp_all add: import_failed_def reject_def)

lemma consistent_disconnect: "consistent w \<Longrightarrow> consistent (snd (disconnect a w))"
  by (auto simp: consistent_def owned_open_def disconnect_def ws_close_def map_socket_def Let_def wired_def opened_def list_all_length nth_list_update split: option.splits)

lemma consistent_receive: "consistent w \<Longrightarrow> consistent (snd (receive n p w))"
  by (rule consistent_frame [of _ w]) simp_all

lemma consistent_send: "consistent w \<Longrightarrow> consistent (snd (send n d g wr w))"
  by (rule consistent_frame [of _ w]) simp_all

lemma consistent_log: "consistent w \<Longrightarrow> consistent (snd (log n w))"
  by (rule consistent_frame [of _ w]) simp_all

lemma wired_cases: "wired s \<Longrightarrow> pending s \<or> opened s"
  by (simp add: wired_def)

lemma pending_not_opened: "pending s \<Longrightarrow> \<not> opened s"
  by (auto simp: pending_def opened_def)

lemma wired_nth: "consistent w \<Longrightarrow> h < length (sockets w) \<Longrightarrow> wired (sockets w ! h)"
  by (simp add: consistent_def list_all_length)

lemma fire_open:
  assumes "h < length (sockets w)" "wired (sockets w ! h)" "readyState (sockets w ! h) = CONNECTING"
  shows "fire h EvOpen w =
    resolve (call (sockets w ! h))
      ((snd (log [JStr (''Connected to \"'' @ ws_url (sockets w ! h) @ ''\"'')] w))
        \<lparr>ws := Some h,
         sockets := (sockets w)[h := (sockets w ! h)\<lparr>readyState := OPEN,
            on_error := [PostOpenErrorHandler], on_close := [PostOpenCloseHandler]\<rparr>]\<rparr>)"
  using assms
  by (auto simp: fire_def ops Let_def wired_def pending_def opened_def)

lemma fire_message:
  assumes "h < length (sockets w)" "wired (sockets w ! h)"
  shows "fire h (EvMessage m) w =
    (case m of None \<Rightarrow> emit (Uncaught ''SyntaxError'') w
     | Some message \<Rightarrow> (case get_type message of None \<Rightarrow> emit (Uncaught ''TypeError'') w
          | Some ty \<Rightarrow> snd (receive ty message w)))"
  using assms
  by (auto simp: fire_def map_socket_def wired_def list_update_same_conv split: option.splits)

lemma fire_error_pending:
  assumes "h < length (sockets w)" "wired (sockets w ! h)" "pending (sockets w ! h)"
  shows "fire h (EvError m) w =
    (let w1 = map_socket h (\<lambda>s. s\<lparr>readyState := closing (readyState s)\<rparr>) w
     in reject (call (sockets w ! h))
        (Error (''Could not connect to \"'' @ ws_url (sockets w ! h) @ ''\": '' @ to_string m))
        (snd (disconnect (Some h) w1)))"
  using assms
  by (auto simp: fire_def ops Let_def wired_def pending_def opened_def)

lemma fire_error_opened:
  assumes "h < length (sockets w)" "wired (sockets w ! h)" "opened (sockets w ! h)"
  shows "fire h (EvError m) w =
    (let w1 = map_socket h (\<lambda>s. s\<lparr>readyState := closing (readyState s)\<rparr>) w;
         w2 = snd (disconnect (Some h) w1);
         w3 = snd (log [JStr (''Error, disconnected from \"'' @ ws_url (sockets w ! h) @ ''\": '' @ to_string m)] w2)
     in snd (dispatch ''close'' (JObject [''error'' \<mapsto> JBool True]) w3))"
  using assms
  by (auto simp: fire_def ops Let_def wired_def pending_def opened_def)

lemma fire_close_pending:
  assumes "h < length (sockets w)" "wired (sockets w ! h)" "pending (sockets w ! h)"
  shows "fire h EvClose w = map_socket h (\<lambda>s. s\<lparr>readyState := CLOSED\<rparr>) w"
  using assms
  by (auto simp: fire_def ops Let_def wired_def pending_def opened_def)

lemma fire_close_opened:
  assumes "h < length (sockets w)" "wired (sockets w ! h)" "opened (sockets w ! h)"
  shows "fire h EvClose w =
    (let w1 = map_socket h (\<lambda>s. s\<lparr>readyState := CLOSED\<rparr>) w;
         w2 = snd (disconnect (Some h) w1);
         w3 = snd (log [JStr (''Disconnected from \"'' @ ws_url (sockets w ! h) @ ''\"'')] w2)
     in snd (dispatch ''close'' (JObject [''error'' \<mapsto> JBool False]) w3))"
  using assms
  by (auto simp: fire_def ops Let_def wired_def pending_def opened_def)

lemma consistent_emit: "consistent w \<Longrightarrow> consistent (emit e w)"
  by (rule consistent_frame [of _ w]) simp_all

lemma consistent_fire_open:
  assumes "consistent w" "h < length (sockets w)" "readyState (sockets w ! h) = CONNECTING"
  shows "consistent (fire h EvOpen w)"
proof -
  have wi: "wired (sockets w ! h)" using assms by (simp add: wired_nth)
  show ?thesis
    unfolding fire_open [OF assms(2) wi assms(3)]
    using assms wi
    by (auto simp: consistent_def owned_open_def resolve_def wired_def opened_def
        intro!: list_all_update)
qed

lemma consistent_fire_message:
  assumes "consistent w" "h < length (sockets w)"
  shows "consistent (fire h (EvMessage m) w)"
proof -
  have wi: "wired (sockets w ! h)" using assms by (simp add: wired_nth)
  show ?thesis
    unfolding fire_message [OF assms(2) wi]
    using assms(1) by (simp add: consistent_receive consistent_emit split: option.splits)
qed

lemma closing_not_connecting [simp]: "closing r \<noteq> CONNECTING"
  by (cases r) simp_all

text \<open>a channel that leaves the open state is released in the same turn if it was owned\<close>
lemma consistent_leave:
  assumes "consistent w" "h < length (sockets w)" "\<And>r. f r \<noteq> CONNECTING"
  shows "consistent (snd (disconnect (Some h) (map_socket h (\<lambda>s. s\<lparr>readyState := f (readyState s)\<rparr>) w)))"
  using assms
  by (auto simp: consistent_def owned_open_def disconnect_def map_socket_def ws_close_def Let_def 
        wired_def opened_def pending_def list_all_length nth_list_update)

lemma consistent_fire_error:
  assumes "consistent w" "h < length (sockets w)"
  shows "consistent (fire h (EvError m) w)"
proof -
  have wi: "wired (sockets w ! h)" using assms by (simp add: wired_nth)
  have l: "consistent (snd (disconnect (Some h) (map_socket h (\<lambda>s. s\<lparr>readyState := closing (readyState s)\<rparr>) w)))"
    using assms by (intro consistent_leave) simp_all
  from wired_cases [OF wi] show ?thesis
  proof
    assume p: "pending (sockets w ! h)"
    show ?thesis
      unfolding fire_error_pending [OF assms(2) wi p] Let_def
      by (rule consistent_frame [OF _ _ l]) (simp_all add: reject_def)
  next
    assume p: "opened (sockets w ! h)"
    show ?thesis
      unfolding fire_error_opened [OF assms(2) wi p] Let_def
      by (rule consistent_frame [OF _ _ l]) simp_all
  qed
qed

lemma consistent_fire_close:
  assumes "consistent w" "h < length (sockets w)"
  shows "consistent (fire h EvClose w)"
proof -
  have wi: "wired (sockets w ! h)" using assms by (simp add: wired_nth)
  have l: "consistent (snd (disconnect (Some h) (map_socket h (\<lambda>s. s\<lparr>readyState := (\<lambda>_. CLOSED) (readyState s)\<rparr>) w)))"
    using assms by (intro consistent_leave) simp_all
  from wired_cases [OF wi] show ?thesis
  proof
    assume p: "pending (sockets w ! h)"
    have "ws w \<noteq> Some h" using p assms(1) by (auto simp: consistent_def owned_open_def dest: pending_not_opened)
    then have "snd (disconnect (Some h) (map_socket h (\<lambda>s. s\<lparr>readyState := CLOSED\<rparr>) w))
       = map_socket h (\<lambda>s. s\<lparr>readyState := CLOSED\<rparr>) w"
      by (auto simp: disconnect_def map_socket_def)
    with l show ?thesis
      unfolding fire_close_pending [OF assms(2) wi p] by simp
  next
    assume p: "opened (sockets w ! h)"
    show ?thesis
      unfolding fire_close_opened [OF assms(2) wi p] Let_def
      by (rule consistent_frame [OF _ _ l]) simp_all
  qed
qed

lemma consistent_step: "consistent w \<Longrightarrow> enabled a w \<Longrightarrow> consistent (step t a w)"
proof (cases a)
  case (Event h ev)
  assume "consistent w" "enabled a w"
  then show ?thesis using Event
    by (cases ev) (simp_all add: consistent_fire_open consistent_fire_message consistent_fire_error consistent_fire_close)
qed (simp_all add: consistent_connect consistent_import_done consistent_import_failed consistent_disconnect consistent_receive consistent_send consistent_log)

lemma reachable_consistent: "reachable t w \<Longrightarrow> consistent w"
  by (induction rule: reachable.induct) (simp_all add: consistent_init consistent_step)

lemma reachable_run: "reachable t w \<Longrightarrow> admissible t as w \<Longrightarrow> reachable t (run t as w)"
  by (induction as arbitrary: w) (auto intro: reachable.step)

lemma dispatched_append [simp]: "dispatched (xs @ ys) = dispatched xs @ dispatched ys"
  by (induction xs rule: dispatched.induct) simp_all

lemma written_append [simp]: "written (xs @ ys) = written xs @ written ys"
  by (induction xs rule: written.induct) simp_all

lemma constructed_append [simp]: "constructed (xs @ ys) = constructed xs @ constructed ys"
  by (induction xs rule: constructed.induct) simp_all

lemma new_effects_append [simp]: "trace w' = trace w @ es \<Longrightarrow> new_effects w w' = es"
  by (simp add: new_effects_def)

lemma fresh_simps [simp]: "ws fresh = None" "document fresh" "sockets fresh = []" "promises fresh = []"
  "trace fresh = []" "\<not> debug fresh"
  by (simp_all add: fresh_def constructor_def)

lemma reachable_fresh: "reachable lib_api fresh"
  unfolding fresh_def by (rule reachable.init)

lemma connecting_eq: "connecting = snd (connect lib_api fresh)"
  by (simp add: connecting_def)

lemma connecting_simps: "ws connecting = None" "length (sockets connecting) = 1"
  "readyState (sockets connecting ! 0) = CONNECTING" "wired (sockets connecting ! 0)"
  "constructed (trace connecting) = [0]" "call (sockets connecting ! 0) = 0"
  "\<not> debug connecting" "promises connecting = [Pending]"
  by (simp_all add: connecting_eq connect_def new_websocket_def isConnected_def Let_def wired_def pending_def)

lemma reachable_connecting: "reachable lib_api connecting"
  unfolding connecting_def by (rule reachable_run [OF reachable_fresh]) simp

lemma connected_eq: "connected = fire 0 EvOpen connecting"
  by (simp add: connected_def connecting_def)


lemma connected_ws: "ws connected = Some 0"
  by (simp add: connected_eq fire_open connecting_simps resolve_def)

lemma reachable_connected: "reachable lib_api connected"
  unfolding connected_def
  by (rule reachable_run [OF reachable_fresh]) (simp add: connecting_eq [unfolded connecting_def, simplified] connect_def new_websocket_def isConnected_def Let_def)

subsection \<open>Only an open callback acquires a channel\<close>

lemma run_listener_ws_None:
  "ws w = None \<Longrightarrow> ev \<noteq> EvOpen \<Longrightarrow> ws (run_listener l h ev w) = None"
proof (cases ev)
  case (EvMessage m)
  assume "ws w = None"
  then show ?thesis using EvMessage
    by (cases l; cases m) (simp_all split: option.splits)
next
  case (EvError m)
  assume "ws w = None"
  then show ?thesis using EvError
    by (cases l) (simp_all add: disconnect_def reject_def Let_def)
next
  case EvClose
  assume "ws w = None"
  then show ?thesis using EvClose
    by (cases l) (simp_all add: disconnect_def Let_def)
qed simp

lemma fold_ws_None:
  "ws w = None \<Longrightarrow> ev \<noteq> EvOpen \<Longrightarrow> ws (fold (\<lambda>l. run_listener l h ev) ls w) = None"
  by (induction ls arbitrary: w) (simp_all add: run_listener_ws_None)

lemma fire_ws_None: "ws w = None \<Longrightarrow> ev \<noteq> EvOpen \<Longrightarrow> ws (fire h ev w) = None"
  by (simp add: fire_def fold_ws_None map_socket_def)

lemma step_ws_None: "ws w = None \<Longrightarrow> \<not> is_open a \<Longrightarrow> ws (step t a w) = None"
proof (cases a)
  case (Event h ev)
  assume "ws w = None" "\<not> is_open a"
  then show ?thesis using Event by (cases ev) (simp_all add: fire_ws_None)
qed (simp_all add: connect_def isConnected_def new_websocket_def Let_def import_done_def import_failed_def
       reject_def disconnect_def)

lemma run_ws_None: "ws w = None \<Longrightarrow> \<not> list_ex is_open as \<Longrightarrow> ws (run t as w) = None"
  by (induction as arbitrary: w) (simp_all add: step_ws_None)

subsection \<open>The owned channel's close and error callbacks release it\<close>

lemma owned_facts:
  assumes "reachable t w" "ws w = Some h"
  shows "h < length (sockets w)" "wired (sockets w ! h)" "opened (sockets w ! h)"
    "readyState (sockets w ! h) = OPEN"
  using reachable_consistent [OF assms(1)] assms(2)
  by (simp_all add: consistent_def owned_open_def list_all_length)

lemma fire_close_owned:
  assumes "reachable t w" "ws w = Some h"
  shows "ws (fire h EvClose w) = None"
  using owned_facts [OF assms] assms(2)
  by (simp add: fire_close_opened Let_def disconnect_def map_socket_def)

lemma fire_error_owned:
  assumes "reachable t w" "ws w = Some h"
  shows "ws (fire h (EvError m) w) = None"
  using owned_facts [OF assms] assms(2)
  by (simp add: fire_error_opened Let_def disconnect_def map_socket_def)

subsection \<open>What a send on a connected client does\<close>

lemma send_connected:
  assumes "ws w = Some h" "\<not> (truthy d \<and> typeof d \<noteq> ''object'')"
  shows "send n d g wr w =
    (let ev = JObject ([''event_id'' \<mapsto> JStr (g ''evt_''), ''type'' \<mapsto> n]
                 ++ spread (if truthy d then d else JObject Map.empty))
     in (case wr of None \<Rightarrow> Inr True | Some x \<Rightarrow> Inl (Thrown x),
         w\<lparr>trace := trace w
             @ [Dispatch (''client.'' @ to_string n) ev, Dispatch ''client.*'' ev]
             @ (if debug w then [ConsoleLog [JStr ''sent:'', n, ev]] else [])
             @ (case wr of None \<Rightarrow> [WsSend h ev] | Some x \<Rightarrow> [])\<rparr>))"
  using assms
  by (auto simp: send_def isConnected_def Let_def dispatch_def log_def emit_def split: option.splits)

lemma send_invalid:
  assumes "ws w = Some h" "truthy d" "typeof d \<noteq> ''object''"
  shows "send n d g wr w = (Inl InvalidPayload, w)"
  using assms by (simp add: send_def isConnected_def InvalidPayload_def)

lemma send_falsy: "\<not> truthy d \<Longrightarrow> send n d g wr w = send n (JObject Map.empty) g wr w"
  by (simp add: send_def)

lemma connected_debug: "\<not> debug connected"
  by (simp add: connected_eq fire_open connecting_simps resolve_def)


subsection \<open>The promises of the connect calls\<close>

lemma nth_update_if: "xs[i := x] ! j = (if i = j \<and> i < length xs then x else xs ! j)"
  by (cases "i < length xs") (auto simp: nth_list_update list_update_beyond)

lemma promised_frame:
  "sockets w' = sockets w \<Longrightarrow> importing w' = importing w \<Longrightarrow> promises w' = promises w
     \<Longrightarrow> promised w \<Longrightarrow> promised w'"
  by (simp add: promised_def)

lemma promised_init: "promised (constructor t dbg doc)"
  by (simp add: promised_def constructor_def)

lemma promised_connect: "promised w \<Longrightarrow> promised (snd (connect t w))"
  unfolding promised_def connect_def new_websocket_def Let_def
  by (auto simp: nth_append less_Suc_eq)

lemma promised_import_done: "promised w \<Longrightarrow> p \<in> set (importing w) \<Longrightarrow> promised (import_done t p w)"
  unfolding promised_def import_done_def new_websocket_def Let_def
  by (auto simp: nth_append less_Suc_eq dest: notin_set_remove1)


lemma promised_import_failed:
  "promised w \<Longrightarrow> p \<in> set (importing w) \<Longrightarrow> promised (import_failed p e w)"
  unfolding promised_def import_failed_def reject_def
  by (auto simp: nth_update_if dest: notin_set_remove1)

text \<open>changing the state of one channel to one that is not connecting\<close>
lemma promised_readyState:
  assumes "promised w" "r \<noteq> CONNECTING"
  shows "promised (map_socket h (\<lambda>s. s\<lparr>readyState := r\<rparr>) w)"
  using assms unfolding promised_def map_socket_def
  by (auto simp: nth_update_if)

lemma promised_disconnect:
  assumes "promised w"
  shows "promised (snd (disconnect a w))"
proof (cases "ws w")
  case None
  then show ?thesis using assms(1)
    by (auto simp: disconnect_def Let_def intro: promised_frame [of _ w])
next
  case (Some h)
  have "promised (map_socket h (\<lambda>s. s\<lparr>readyState := closing (readyState s)\<rparr>) w)"
    using promised_readyState [OF assms(1), of "closing (readyState (sockets w ! h))" h]
    by (simp add: map_socket_def)
  then have "promised ((ws_close h w)\<lparr>ws := None\<rparr>)"
    by (rule promised_frame [rotated -1]) (simp_all add: ws_close_def map_socket_def)
  then show ?thesis using Some assms(1)
    by (simp add: disconnect_def Let_def)
qed

lemma promised_fire_open:
  assumes "promised w" "consistent w" "h < length (sockets w)" "readyState (sockets w ! h) = CONNECTING"
  shows "promised (fire h EvOpen w)"
proof -
  have wi: "wired (sockets w ! h)" using assms by (simp add: wired_nth)
  show ?thesis
    unfolding fire_open [OF assms(3) wi assms(4)]
    using assms(1,3,4) unfolding promised_def resolve_def
    by (auto simp: nth_update_if)
qed


lemma promised_fire_message:
  assumes "promised w" "consistent w" "h < length (sockets w)"
  shows "promised (fire h (EvMessage m) w)"
proof -
  have wi: "wired (sockets w ! h)" using assms by (simp add: wired_nth)
  show ?thesis
    unfolding fire_message [OF assms(3) wi]
    by (rule promised_frame [OF _ _ _ assms(1)]) (simp_all split: option.splits)
qed

lemma closing_map_socket:
  "map_socket h (\<lambda>s. s\<lparr>readyState := f (readyState s)\<rparr>) w
     = map_socket h (\<lambda>s. s\<lparr>readyState := f (readyState (sockets w ! h))\<rparr>) w"
  by (simp add: map_socket_def)

lemma promised_leave:
  assumes "promised w" "\<And>r. f r \<noteq> CONNECTING"
  shows "promised (snd (disconnect (Some h) (map_socket h (\<lambda>s. s\<lparr>readyState := f (readyState s)\<rparr>) w)))"
  unfolding closing_map_socket [of h f]
  by (intro promised_disconnect promised_readyState assms)

lemma promised_promises_update:
  assumes "promised w"
    and "\<forall>i < length (sockets w). call (sockets w ! i) = c \<longrightarrow>
           readyState (sockets w ! i) \<noteq> CONNECTING \<and> on_error (sockets w ! i) \<noteq> [PostOpenErrorHandler]"
    and "c \<notin> set (importing w)"
  shows "promised (w\<lparr>promises := (promises w)[c := v]\<rparr>)"
proof -
  let ?ps = "(promises w)[c := v]"
  have a: "?ps ! k = promises w ! k" if "k \<noteq> c" for k
    using that by simp
  have 4: "p < length ?ps \<and> ?ps ! p = Pending" if "p \<in> set (importing w)" for p
  proof -
    have "p \<noteq> c" using that assms(3) by auto
    moreover have "p < length (promises w) \<and> promises w ! p = Pending"
      using assms(1) that unfolding promised_def by blast
    ultimately show ?thesis by (simp add: a)
  qed
  have 5: "call (sockets w ! i) < length ?ps
      \<and> (readyState (sockets w ! i) = CONNECTING \<longrightarrow> ?ps ! call (sockets w ! i) = Pending)
      \<and> (on_error (sockets w ! i) = [PostOpenErrorHandler] \<longrightarrow> ?ps ! call (sockets w ! i) = Fulfilled)"
    if "i < length (sockets w)" for i
  proof -
    have o: "call (sockets w ! i) < length (promises w)
      \<and> (readyState (sockets w ! i) = CONNECTING \<longrightarrow> promises w ! call (sockets w ! i) = Pending)
      \<and> (on_error (sockets w ! i) = [PostOpenErrorHandler] \<longrightarrow> promises w ! call (sockets w ! i) = Fulfilled)"
      using assms(1) that unfolding promised_def by blast
    show ?thesis
    proof (cases "call (sockets w ! i) = c")
      case True
      then show ?thesis using assms(2) that o by simp
    next
      case False
      then show ?thesis using o by (simp add: a)
    qed
  qed
  have 123: "(\<forall>i < length (sockets w). \<forall>j < length (sockets w).
          i \<noteq> j \<longrightarrow> call (sockets w ! i) \<noteq> call (sockets w ! j))
      \<and> distinct (importing w)
      \<and> (\<forall>i < length (sockets w). call (sockets w ! i) \<notin> set (importing w))"
    using assms(1) unfolding promised_def by blast
  show ?thesis
    unfolding promised_def using 123 4 5 by simp
qed

lemma promised_reject:
  assumes "promised w" "h < length (sockets w)" "readyState (sockets w ! h) \<noteq> CONNECTING"
    "on_error (sockets w ! h) \<noteq> [PostOpenErrorHandler]"
  shows "promised (reject (call (sockets w ! h)) x w)"
proof -
  have d: "i = h" if "i < length (sockets w)" "call (sockets w ! i) = call (sockets w ! h)" for i
    using assms(1,2) that unfolding promised_def by metis
  have q: "call (sockets w ! h) \<notin> set (importing w)"
    using assms(1,2) unfolding promised_def by metis
  show ?thesis
    unfolding reject_def
    by (rule promised_promises_update [OF assms(1) _ q]) (use d assms(3,4) in auto)
qed

lemma promised_fire_error:
  assumes "promised w" "consistent w" "h < length (sockets w)"
  shows "promised (fire h (EvError m) w)"
proof -
  have wi: "wired (sockets w ! h)" using assms by (simp add: wired_nth)
  let ?w1 = "map_socket h (\<lambda>s. s\<lparr>readyState := closing (readyState s)\<rparr>) w"
  have l: "promised (snd (disconnect (Some h) ?w1))"
    using assms by (intro promised_leave) simp_all
  from wired_cases [OF wi] show ?thesis
  proof
    assume p: "pending (sockets w ! h)"
    then have "ws w \<noteq> Some h"
      using assms(2) by (auto simp: consistent_def owned_open_def dest: pending_not_opened)
    then have e: "snd (disconnect (Some h) ?w1) = ?w1"
      by (auto simp: disconnect_def map_socket_def)
    have 1: "promised ?w1" using l e by simp
    have 2: "h < length (sockets ?w1)" "readyState (sockets ?w1 ! h) \<noteq> CONNECTING"
      "on_error (sockets ?w1 ! h) \<noteq> [PostOpenErrorHandler]"
      "call (sockets ?w1 ! h) = call (sockets w ! h)"
      using assms(3) p by (simp_all add: map_socket_def pending_def)
    show ?thesis
      unfolding fire_error_pending [OF assms(3) wi p] Let_def e
      using promised_reject [OF 1 2(1,2,3)] unfolding 2(4) .
  next
    assume p: "opened (sockets w ! h)"
    show ?thesis
      unfolding fire_error_opened [OF assms(3) wi p] Let_def
      by (rule promised_frame [OF _ _ _ l]) simp_all
  qed
qed

lemma promised_fire_close:
  assumes "promised w" "consistent w" "h < length (sockets w)"
  shows "promised (fire h EvClose w)"
proof -
  have wi: "wired (sockets w ! h)" using assms by (simp add: wired_nth)
  from wired_cases [OF wi] show ?thesis
  proof
    assume p: "pending (sockets w ! h)"
    show ?thesis
      unfolding fire_close_pending [OF assms(3) wi p]
      by (intro promised_readyState assms) simp
  next
    assume p: "opened (sockets w ! h)"
    have l: "promised (snd (disconnect (Some h) (map_socket h (\<lambda>s. s\<lparr>readyState := (\<lambda>_. CLOSED) (readyState s)\<rparr>) w)))"
      using assms by (intro promised_leave) simp_all
    show ?thesis
      unfolding fire_close_opened [OF assms(3) wi p] Let_def
      by (rule promised_frame [OF _ _ _ l]) simp_all
  qed
qed

lemma promised_step: "promised w \<Longrightarrow> consistent w \<Longrightarrow> enabled a w \<Longrightarrow> promised (step t a w)"
proof (cases a)
  case (Event h ev)
  assume "promised w" "consistent w" "enabled a w"
  then show ?thesis using Event
    by (cases ev) (simp_all add: promised_fire_open promised_fire_message promised_fire_error promised_fire_close)
next
  case (Disconnect x)
  assume "promised w"
  then show ?thesis using Disconnect by (simp add: promised_disconnect)
next
  case (Receive n p)
  assume "promised w"
  then show ?thesis unfolding Receive step.simps by (rule promised_frame [rotated -1]) simp_all
next
  case (Send n d g wr)
  assume "promised w"
  then show ?thesis unfolding Send step.simps by (rule promised_frame [rotated -1]) simp_all
next
  case (Log args)
  assume "promised w"
  then show ?thesis unfolding Log step.simps by (rule promised_frame [rotated -1]) simp_all
qed (simp_all add: promised_connect promised_import_done promised_import_failed)

lemma reachable_promised: "reachable t w \<Longrightarrow> promised w"
  by (induction rule: reachable.induct)
     (simp_all add: promised_init promised_step reachable_consistent)

lemma owned_fulfilled:
  assumes "reachable t w" "ws w = Some h"
  shows "promises w ! call (sockets w ! h) = Fulfilled"
  using reachable_promised [OF assms(1)] owned_facts [OF assms]
  by (simp add: promised_def opened_def)

subsection \<open>Callbacks of the owned channel and of other channels\<close>

lemma disconnect_other: "ws w \<noteq> Some h \<Longrightarrow> disconnect (Some h) w = (JUndefined, w)"
  by (auto simp: disconnect_def)

lemma map_socket_frame [simp]:
  "ws (map_socket h f w) = ws w" "promises (map_socket h f w) = promises w"
  "importing (map_socket h f w) = importing w" "debug (map_socket h f w) = debug w"
  "document (map_socket h f w) = document w" "url (map_socket h f w) = url w"
  "deploymentName (map_socket h f w) = deploymentName w"
  "resourceName (map_socket h f w) = resourceName w" "trace (map_socket h f w) = trace w"
  "length (sockets (map_socket h f w)) = length (sockets w)"
  "k \<noteq> h \<Longrightarrow> sockets (map_socket h f w) ! k = sockets w ! k"
  by (simp_all add: map_socket_def)

lemma fire_error_owned_effects:
  assumes "reachable t w" "ws w = Some h"
  shows "new_effects w (fire h (EvError m) w)
    = [WsClose h]
      @ (if debug w then [ConsoleLog [JStr (''Error, disconnected from \"'' @ ws_url (sockets w ! h) @ ''\": '' @ to_string m)]] else [])
      @ [Dispatch ''close'' (JObject [''error'' \<mapsto> JBool True])]"
    "promises (fire h (EvError m) w) = promises w"
  using owned_facts [OF assms] assms(2)
  by (simp_all add: fire_error_opened Let_def disconnect_def ws_close_def new_effects_def)

lemma fire_error_other:
  assumes "reachable t w" "h < length (sockets w)" "opened (sockets w ! h)" "ws w \<noteq> Some h"
  shows "new_effects w (fire h (EvError m) w)
    = (if debug w then [ConsoleLog [JStr (''Error, disconnected from \"'' @ ws_url (sockets w ! h) @ ''\": '' @ to_string m)]] else [])
      @ [Dispatch ''close'' (JObject [''error'' \<mapsto> JBool True])]"
    "promises (fire h (EvError m) w) = promises w"
    "this_fields (fire h (EvError m) w) = this_fields w"
  using assms wired_nth [OF reachable_consistent [OF assms(1)] assms(2)]
  by (simp_all add: fire_error_opened Let_def disconnect_other new_effects_def this_fields_def)

lemmas turn_defs = fire_def connect_def disconnect_def new_websocket_def isConnected_def ws_close_def
  map_socket_def emit_def log_def dispatch_def resolve_def reject_def Let_def

lemma reconnected_simps:
  "ws reconnected = Some 1" "length (sockets reconnected) = 2" "\<not> debug reconnected"
  "readyState (sockets reconnected ! 0) = CLOSING" "opened (sockets reconnected ! 0)"
  "wired (sockets reconnected ! 0)"
  by (simp_all add: reconnected_def turn_defs opened_def wired_def nth_append)

lemma reachable_reconnected: "reachable lib_api reconnected"
  unfolding reconnected_def
  by (rule reachable_run [OF reachable_fresh]) (simp add: turn_defs nth_append)

lemma fire_other_fields:
  assumes "reachable t w" "h < length (sockets w)" "ws w \<noteq> Some h" "ev \<noteq> EvOpen"
  shows "this_fields (fire h ev w) = this_fields w"
    "k \<noteq> h \<Longrightarrow> sockets (fire h ev w) ! k = sockets w ! k"
proof -
  have wi: "wired (sockets w ! h)"
    using wired_nth [OF reachable_consistent [OF assms(1)] assms(2)] .
  have "this_fields (fire h ev w) = this_fields w \<and> (k \<noteq> h \<longrightarrow> sockets (fire h ev w) ! k = sockets w ! k)"
  proof (cases ev)
    case EvOpen
    then show ?thesis using assms(4) by simp
  next
    case (EvMessage m)
    show ?thesis unfolding EvMessage fire_message [OF assms(2) wi]
      by (simp add: this_fields_def split: option.splits)
  next
    case (EvError m)
    from wired_cases [OF wi] show ?thesis
    proof
      assume p: "pending (sockets w ! h)"
      show ?thesis unfolding EvError fire_error_pending [OF assms(2) wi p]
        using assms(3) by (simp add: Let_def disconnect_other this_fields_def reject_def)
    next
      assume p: "opened (sockets w ! h)"
      show ?thesis unfolding EvError fire_error_opened [OF assms(2) wi p]
        using assms(3) by (simp add: Let_def disconnect_other this_fields_def)
    qed
  next
    case EvClose
    from wired_cases [OF wi] show ?thesis
    proof
      assume p: "pending (sockets w ! h)"
      show ?thesis unfolding EvClose fire_close_pending [OF assms(2) wi p]
        by (simp add: this_fields_def)
    next
      assume p: "opened (sockets w ! h)"
      show ?thesis unfolding EvClose fire_close_opened [OF assms(2) wi p]
        using assms(3) by (simp add: Let_def disconnect_other this_fields_def)
    qed
  qed
  then show "this_fields (fire h ev w) = this_fields w"
    "k \<noteq> h \<Longrightarrow> sockets (fire h ev w) ! k = sockets w ! k" by simp_all
qed


subsection \<open>Every turn preserves the equivalence of the two sources\<close>

lemma same_but_refl [simp]: "same_but a b s s"
  by (simp add: same_but_def)

lemma same_but_self [simp]: "same_but a b a b"
  unfolding same_but_def by (rule disjI2, rule exI [of _ "[]"], rule exI [of _ "[]"]) simp

lemma same_but_wrap: "same_but a b s s' \<Longrightarrow> same_but a b (x @ s @ y) (x @ s' @ y)"
  unfolding same_but_def
proof (elim disjE exE conjE)
  fix pre post assume "s = pre @ a @ post" "s' = pre @ b @ post"
  then have "x @ s @ y = (x @ pre) @ a @ (post @ y) \<and> x @ s' @ y = (x @ pre) @ b @ (post @ y)"
    by simp
  then show "x @ s @ y = x @ s' @ y \<or> (\<exists>pre post. x @ s @ y = pre @ a @ post \<and> x @ s' @ y = pre @ b @ post)"
    by blast
qed simp

lemma rel_effect_refl [simp]: "rel_effect a b e e"
  by (simp add: rel_effect_def)

lemma rel_promise_refl [simp]: "rel_promise a b p p"
  by (simp add: rel_promise_def)

lemma rel_emit:
  "rel_world a b w w' \<Longrightarrow> rel_effect a b e e' \<Longrightarrow> rel_world a b (emit e w) (emit e' w')"
  by (simp add: rel_world_def list_all2_appendI)

lemma rel_log_same:
  "rel_world a b w w' \<Longrightarrow> rel_world a b (snd (log args w)) (snd (log args w'))"
  by (simp add: rel_world_def list_all2_appendI)

lemma rel_log_url:
  "rel_world a b w w' \<Longrightarrow> same_but a b s s'
     \<Longrightarrow> rel_world a b (snd (log [JStr s] w)) (snd (log [JStr s'] w'))"
  by (auto simp: rel_world_def rel_effect_def intro!: list_all2_appendI)

lemma rel_dispatch:
  "rel_world a b w w' \<Longrightarrow> rel_world a b (snd (dispatch n p w)) (snd (dispatch n p w'))"
  by (simp add: rel_world_def list_all2_appendI)

lemma rel_receive:
  "rel_world a b w w' \<Longrightarrow> rel_world a b (snd (receive n p w)) (snd (receive n p w'))"
  unfolding receive_def Let_def snd_conv
  by (intro rel_dispatch rel_log_same)

lemma rel_send:
  "rel_world a b w w' \<Longrightarrow>
     fst (send n d g wr w) = fst (send n d g wr w')
     \<and> rel_world a b (snd (send n d g wr w)) (snd (send n d g wr w'))"
proof -
  assume r: "rel_world a b w w'"
  then have e: "ws w = ws w'" by (simp add: rel_world_def)
  show ?thesis
  proof (cases "ws w")
    case None
    then show ?thesis using r e by (simp add: send_def isConnected_def)
  next
    case (Some h)
    show ?thesis
    proof (cases "truthy d \<and> typeof d \<noteq> ''object''")
      case True
      then show ?thesis using r e Some by (simp add: send_invalid [where h = h])
    next
      case False
      have h': "ws w' = Some h" using e Some by simp
      have d: "debug w = debug w'" using r by (simp add: rel_world_def)
      show ?thesis
        unfolding send_connected [OF Some False] send_connected [OF h' False] Let_def
        using r d by (auto simp: rel_world_def split: option.splits intro!: list_all2_appendI)
    qed
  qed
qed


lemma rel_lengths:
  "rel_world a b w w' \<Longrightarrow> length (sockets w) = length (sockets w')"
  "rel_world a b w w' \<Longrightarrow> length (promises w) = length (promises w')"
  by (auto simp: rel_world_def dest: list_all2_lengthD)

lemma rel_nth:
  "rel_world a b w w' \<Longrightarrow> h < length (sockets w) \<Longrightarrow> rel_socket a b (sockets w ! h) (sockets w' ! h)"
  by (simp add: rel_world_def list_all2_nthD)

lemma rel_map_socket:
  assumes "rel_world a b w w'" "\<And>s s'. rel_socket a b s s' \<Longrightarrow> rel_socket a b (f s) (f s')"
  shows "rel_world a b (map_socket h f w) (map_socket h f w')"
proof (cases "h < length (sockets w)")
  case True
  then show ?thesis
    using assms rel_nth [OF assms(1) True]
    by (simp add: rel_world_def map_socket_def list_all2_update_cong)
next
  case False
  then have "length (sockets w) \<le> h" "length (sockets w') \<le> h"
    using rel_lengths(1) [OF assms(1)] by simp_all
  then show ?thesis
    using assms(1) by (simp add: rel_world_def map_socket_def list_update_beyond)
qed

lemma rel_ws_close:
  "rel_world a b w w' \<Longrightarrow> rel_world a b (ws_close h w) (ws_close h w')"
  unfolding ws_close_def
  by (intro rel_emit rel_map_socket) (simp_all add: rel_socket_def)

lemma rel_ws_update:
  "rel_world a b w w' \<Longrightarrow> rel_world a b (w\<lparr>ws := x\<rparr>) (w'\<lparr>ws := x\<rparr>)"
  by (simp add: rel_world_def)

lemma rel_disconnect:
  assumes "rel_world a b w w'"
  shows "fst (disconnect x w) = fst (disconnect x w')"
    "rel_world a b (snd (disconnect x w)) (snd (disconnect x w'))"
proof -
  have e: "ws w = ws w'" using assms by (simp add: rel_world_def)
  show "fst (disconnect x w) = fst (disconnect x w')"
    by (simp add: disconnect_def e Let_def)
  show "rel_world a b (snd (disconnect x w)) (snd (disconnect x w'))"
    using assms by (auto simp: disconnect_def e [symmetric] Let_def split: option.splits
        intro!: rel_ws_update rel_ws_close)
qed

lemma rel_promises_update:
  "rel_world a b w w' \<Longrightarrow> rel_promise a b p p' \<Longrightarrow>
     rel_world a b (w\<lparr>promises := (promises w)[k := p]\<rparr>) (w'\<lparr>promises := (promises w')[k := p']\<rparr>)"
  by (simp add: rel_world_def list_all2_update_cong)

lemma rel_promise_nth:
  "rel_world a b w w' \<Longrightarrow> k < length (promises w) \<Longrightarrow> rel_promise a b (promises w ! k) (promises w' ! k)"
  by (simp add: rel_world_def list_all2_nthD)

lemma rel_promise_Pending: "rel_promise a b p p' \<Longrightarrow> (p = Pending) = (p' = Pending)"
  by (auto simp: rel_promise_def)

lemma rel_resolve:
  assumes "rel_world a b w w'"
  shows "rel_world a b (resolve k w) (resolve k w')"
proof (cases "k < length (promises w)")
  case True
  have "rel_promise a b (case promises w ! k of Pending \<Rightarrow> Fulfilled | r \<Rightarrow> r)
          (case promises w' ! k of Pending \<Rightarrow> Fulfilled | r \<Rightarrow> r)"
    using rel_promise_nth [OF assms True] rel_promise_Pending [OF rel_promise_nth [OF assms True]]
    by (cases "promises w ! k"; cases "promises w' ! k") simp_all
  then show ?thesis unfolding resolve_def by (rule rel_promises_update [OF assms])
next
  case False
  then have "length (promises w) \<le> k" "length (promises w') \<le> k"
    using rel_lengths(2) [OF assms] by simp_all
  then show ?thesis using assms
    by (simp add: resolve_def rel_world_def list_update_beyond)
qed

lemma rel_reject:
  assumes "rel_world a b w w'" "rel_promise a b (Rejected e) (Rejected e')"
  shows "rel_world a b (reject k e w) (reject k e' w')"
proof (cases "k < length (promises w)")
  case True
  have "rel_promise a b (case promises w ! k of Pending \<Rightarrow> Rejected e | r \<Rightarrow> r)
          (case promises w' ! k of Pending \<Rightarrow> Rejected e' | r \<Rightarrow> r)"
    using rel_promise_nth [OF assms(1) True] rel_promise_Pending [OF rel_promise_nth [OF assms(1) True]]
      assms(2)
    by (cases "promises w ! k"; cases "promises w' ! k") simp_all
  then show ?thesis unfolding reject_def by (rule rel_promises_update [OF assms(1)])
next
  case False
  then have "length (promises w) \<le> k" "length (promises w') \<le> k"
    using rel_lengths(2) [OF assms(1)] by simp_all
  then show ?thesis using assms(1)
    by (simp add: reject_def rel_world_def list_update_beyond)
qed

lemma rel_new_websocket:
  assumes "rel_world a b w w'" "fullUrl t w = a" "fullUrl t' w' = b"
  shows "rel_world a b (new_websocket t p w) (new_websocket t' p w')"
  using assms rel_lengths(1) [OF assms(1)]
  by (auto simp: new_websocket_def Let_def rel_world_def rel_socket_def rel_effect_def
      intro!: list_all2_appendI)

lemma fullUrl_cong: "url w' = url w \<Longrightarrow> deploymentName w' = deploymentName w \<Longrightarrow> fullUrl t w' = fullUrl t w"
  by (simp add: fullUrl_def)

lemma rel_connect:
  assumes "rel_world a b w w'" "fullUrl t w = a" "fullUrl t' w' = b"
  shows "fst (connect t w) = fst (connect t' w')"
    "rel_world a b (snd (connect t w)) (snd (connect t' w'))"
proof -
  have e: "ws w = ws w'" "document w = document w'" "length (promises w) = length (promises w')"
    using assms(1) by (auto simp: rel_world_def dest: list_all2_lengthD)
  show "fst (connect t w) = fst (connect t' w')"
    by (simp add: connect_def isConnected_def e Let_def)
  let ?v = "w\<lparr>promises := promises w @ [Pending]\<rparr>" and ?v' = "w'\<lparr>promises := promises w' @ [Pending]\<rparr>"
  have r: "rel_world a b ?v ?v'"
    using assms(1) by (simp add: rel_world_def list_all2_appendI)
  have n: "rel_world a b (new_websocket t p ?v) (new_websocket t' p ?v')" for p
    by (rule rel_new_websocket [OF r]) (simp_all add: assms(2,3) [symmetric] fullUrl_def)
  have i: "rel_world a b (?v\<lparr>importing := importing ?v @ [p]\<rparr>) (?v'\<lparr>importing := importing ?v' @ [p]\<rparr>)" for p
    using r by (simp add: rel_world_def)
  show "rel_world a b (snd (connect t w)) (snd (connect t' w'))"
    using assms(1) n i by (simp add: connect_def isConnected_def e Let_def)
qed

lemma rel_import_done:
  assumes "rel_world a b w w'" "fullUrl t w = a" "fullUrl t' w' = b"
  shows "rel_world a b (import_done t p w) (import_done t' p w')"
proof -
  have "rel_world a b (w\<lparr>importing := remove1 p (importing w)\<rparr>) (w'\<lparr>importing := remove1 p (importing w')\<rparr>)"
    using assms(1) by (simp add: rel_world_def)
  then show ?thesis unfolding import_done_def
    by (rule rel_new_websocket) (simp_all add: assms(2,3) [symmetric] fullUrl_def)
qed

lemma rel_import_failed:
  assumes "rel_world a b w w'"
  shows "rel_world a b (import_failed p e w) (import_failed p e w')"
proof -
  have "rel_world a b (w\<lparr>importing := remove1 p (importing w)\<rparr>) (w'\<lparr>importing := remove1 p (importing w')\<rparr>)"
    using assms(1) by (simp add: rel_world_def)
  then show ?thesis unfolding import_failed_def
    by (rule rel_reject) simp
qed


lemma rel_call:
  "rel_world a b w w' \<Longrightarrow> h < length (sockets w) \<Longrightarrow> call (sockets w ! h) = call (sockets w' ! h)"
  using rel_nth [of a b w w' h] by (simp add: rel_socket_def)

lemma rel_url:
  "rel_world a b w w' \<Longrightarrow> h < length (sockets w)
     \<Longrightarrow> same_but a b (ws_url (sockets w ! h)) (ws_url (sockets w' ! h))"
  using rel_nth [of a b w w' h] by (simp add: rel_socket_def)

lemma rel_listeners:
  "rel_world a b w w' \<Longrightarrow> h < length (sockets w)
     \<Longrightarrow> listeners_of ev (sockets w ! h) = listeners_of ev (sockets w' ! h)"
  using rel_nth [of a b w w' h] by (cases ev) (simp_all add: rel_socket_def)

lemma disconnect_length [simp]: "length (sockets (snd (disconnect x w))) = length (sockets w)"
  by (simp add: disconnect_def ws_close_def map_socket_def Let_def split: option.splits)

lemma rel_rejected_url:
  "same_but a b u u' \<Longrightarrow> rel_promise a b (Rejected (Error (x @ u @ y))) (Rejected (Error (x @ u' @ y)))"
  unfolding rel_promise_def
  by (rule disjI2, rule exI [of _ "x @ u @ y"], rule exI [of _ "x @ u' @ y"]) (simp add: same_but_wrap)

lemma rel_connection_error:
  assumes "rel_world a b w w'" "h < length (sockets w)"
  shows "rel_world a b (run_listener ConnectionErrorHandler h (EvError m) w)
           (run_listener ConnectionErrorHandler h (EvError m) w')"
  unfolding run_listener.simps Let_def rel_call [OF assms]
  by (intro rel_reject rel_disconnect rel_rejected_url rel_url assms)

lemma rel_open:
  assumes "rel_world a b w w'" "h < length (sockets w)"
  shows "rel_world a b (run_listener OpenHandler h EvOpen w) (run_listener OpenHandler h EvOpen w')"
  unfolding run_listener.simps Let_def rel_call [OF assms]
  by (intro rel_resolve rel_ws_update rel_map_socket rel_log_url same_but_wrap rel_url assms)
     (simp_all add: rel_socket_def)

lemma rel_error_after_open:
  assumes "rel_world a b w w'" "h < length (sockets w)"
  shows "rel_world a b (run_listener PostOpenErrorHandler h (EvError m) w)
           (run_listener PostOpenErrorHandler h (EvError m) w')"
  unfolding run_listener.simps Let_def
  by (intro rel_dispatch rel_log_url rel_disconnect same_but_wrap rel_url assms)

lemma rel_close_after_open:
  assumes "rel_world a b w w'" "h < length (sockets w)"
  shows "rel_world a b (run_listener PostOpenCloseHandler h EvClose w)
           (run_listener PostOpenCloseHandler h EvClose w')"
  unfolding run_listener.simps Let_def
  by (intro rel_dispatch rel_log_url rel_disconnect same_but_wrap rel_url assms)

lemma rel_message:
  assumes "rel_world a b w w'"
  shows "rel_world a b (run_listener MessageHandler h (EvMessage m) w)
           (run_listener MessageHandler h (EvMessage m) w')"
  using assms
  by (cases m) (auto split: option.splits intro!: rel_emit rel_receive)

lemma rel_run_listener:
  assumes "rel_world a b w w'" "h < length (sockets w)"
  shows "rel_world a b (run_listener l h ev w) (run_listener l h ev w')"
proof (cases l; cases ev)
  fix m assume "l = MessageHandler" "ev = EvMessage m"
  then show ?thesis using rel_message [OF assms(1), of h m] by simp
next
  fix m assume "l = ConnectionErrorHandler" "ev = EvError m"
  then show ?thesis using rel_connection_error [OF assms, of m] by simp
next
  assume "l = OpenHandler" "ev = EvOpen"
  then show ?thesis using rel_open [OF assms] by simp
next
  fix m assume "l = PostOpenErrorHandler" "ev = EvError m"
  then show ?thesis using rel_error_after_open [OF assms, of m] by simp
next
  assume "l = PostOpenCloseHandler" "ev = EvClose"
  then show ?thesis using rel_close_after_open [OF assms] by simp
qed (use assms(1) in simp_all)

lemma run_listener_length [simp]: "length (sockets (run_listener l h ev w)) = length (sockets w)"
proof (cases l; cases ev)
  fix m assume "l = MessageHandler" "ev = EvMessage m"
  then show ?thesis by (cases m) (simp_all split: option.splits)
qed (simp_all add: Let_def reject_def resolve_def)

lemma rel_fold:
  "rel_world a b w w' \<Longrightarrow> h < length (sockets w)
     \<Longrightarrow> rel_world a b (fold (\<lambda>l. run_listener l h ev) ls w) (fold (\<lambda>l. run_listener l h ev) ls w')"
  by (induction ls arbitrary: w w') (simp_all add: rel_run_listener)

lemma rel_fire:
  assumes "rel_world a b w w'" "h < length (sockets w)"
  shows "rel_world a b (fire h ev w) (fire h ev w')"
proof -
  let ?v = "map_socket h (\<lambda>s. s\<lparr>readyState := arrive ev (readyState s)\<rparr>) w"
  let ?v' = "map_socket h (\<lambda>s. s\<lparr>readyState := arrive ev (readyState s)\<rparr>) w'"
  have r: "rel_world a b ?v ?v'"
    by (intro rel_map_socket assms) (simp add: rel_socket_def)
  have l: "listeners_of ev (sockets ?v ! h) = listeners_of ev (sockets ?v' ! h)"
    using r assms(2) by (intro rel_listeners) simp_all
  show ?thesis
    unfolding fire_def Let_def l
    using r assms(2) by (intro rel_fold) simp_all
qed


lemma disconnect_target [simp]:
  "url (snd (disconnect x w)) = url w" "deploymentName (snd (disconnect x w)) = deploymentName w"
  by (simp_all add: disconnect_def ws_close_def Let_def split: option.splits)

lemma run_listener_target [simp]:
  "url (run_listener l h ev w) = url w \<and> deploymentName (run_listener l h ev w) = deploymentName w"
proof (cases l; cases ev)
  fix m assume "l = MessageHandler" "ev = EvMessage m"
  then show ?thesis by (cases m) (simp_all split: option.splits)
qed (simp_all add: Let_def reject_def resolve_def)

lemma fold_target:
  "url (fold (\<lambda>l. run_listener l h ev) ls w) = url w
   \<and> deploymentName (fold (\<lambda>l. run_listener l h ev) ls w) = deploymentName w"
  by (induction ls arbitrary: w) simp_all

lemma step_target:
  "url (step t act w) = url w \<and> deploymentName (step t act w) = deploymentName w"
  by (cases act)
     (simp_all add: connect_def new_websocket_def import_done_def import_failed_def reject_def
        fire_def fold_target Let_def)

lemma fullUrl_step [simp]: "fullUrl t (step t0 act w) = fullUrl t w"
  by (simp add: fullUrl_def step_target)

lemma rel_enabled: "rel_world a b w w' \<Longrightarrow> enabled act w = enabled act w'"
proof (cases act)
  case (Event h ev)
  assume r: "rel_world a b w w'"
  have "readyState (sockets w ! h) = readyState (sockets w' ! h)" if "h < length (sockets w)"
    using rel_nth [OF r that] by (simp add: rel_socket_def)
  then show ?thesis using Event rel_lengths(1) [OF r]
    by (cases ev) auto
next
  case (Disconnect x)
  assume r: "rel_world a b w w'"
  then show ?thesis using Disconnect rel_lengths(1) [OF r] by (cases x) simp_all
qed (simp_all add: rel_world_def)

lemma enabled_addressed: "enabled act w \<Longrightarrow> addressed act w"
proof (cases act)
  case (Event h ev)
  assume "enabled act w"
  then show ?thesis using Event by (cases ev) simp_all
qed simp_all

lemma rel_step:
  assumes "rel_world a b w w'" "fullUrl t w = a" "fullUrl t' w' = b" "addressed act w"
  shows "rel_world a b (step t act w) (step t' act w')"
proof (cases act)
  case (Event h ev)
  then have "h < length (sockets w)" using assms(4) by simp
  then show ?thesis using Event assms(1) by (simp add: rel_fire)
qed (simp_all add: assms rel_connect rel_import_done rel_import_failed rel_disconnect rel_receive
       rel_send rel_log_same)

lemma equivalent_step:
  assumes "equivalent t t' w w'" "addressed act w"
  shows "equivalent t t' (step t act w) (step t' act w')"
  unfolding equivalent_def fullUrl_step
  using assms by (intro rel_step) (simp_all add: equivalent_def)

lemma equivalent_enabled: "equivalent t t' w w' \<Longrightarrow> enabled act w = enabled act w'"
  unfolding equivalent_def by (rule rel_enabled)

lemma equivalent_run:
  "equivalent t t' w w' \<Longrightarrow> admissible t as w
     \<Longrightarrow> admissible t' as w' \<and> equivalent t t' (run t as w) (run t' as w')"
proof (induction as arbitrary: w w')
  case Nil
  then show ?case by simp
next
  case (Cons act as)
  then have e: "enabled act w" and a: "admissible t as (step t act w)" by simp_all
  note s = equivalent_step [OF Cons.prems(1) enabled_addressed [OF e]]
  from Cons.IH [OF s a] e equivalent_enabled [OF Cons.prems(1), of act] show ?case by simp
qed

lemma equivalent_init: "equivalent t t' (constructor t dbg doc) (constructor t' dbg doc)"
  by (simp add: equivalent_def rel_world_def constructor_def)

section \<open>The claims\<close>

text \<open>
  C1, as stated, fails: the guard of \<^verbatim>\<open>connect\<close> tests \<^verbatim>\<open>isConnected()\<close>, and the
  client owns a channel only from the channel's open callback on. A second
  \<^verbatim>\<open>connect()\<close> made before the first channel has opened passes the guard and
  constructs a second WebSocket.
\<close>

theorem connect_twice_before_open:
  "fst (connect lib_api connecting) = Inr 1
   \<and> fst (connect lib_api connecting) \<noteq> Inl AlreadyConnected
   \<and> constructed (trace connecting) = [0]
   \<and> constructed (trace (snd (connect lib_api connecting))) = [0, 1]"
  by (simp add: connecting_eq connect_def new_websocket_def isConnected_def Let_def)

text \<open>
  C1, amended: \<^verbatim>\<open>connect()\<close> fails with the Already-connected error exactly when
  \<^verbatim>\<open>isConnected()\<close> is true, and then it changes nothing (no channel is constructed);
  in particular it fails once a channel of an earlier \<^verbatim>\<open>connect()\<close> has reported
  open, as long as that channel is owned.
\<close>

theorem connect_guard:
  "(fst (connect t w) = Inl AlreadyConnected \<longleftrightarrow> isConnected w)
   \<and> (isConnected w \<longrightarrow> connect t w = (Inl AlreadyConnected, w))
   \<and> (reachable t w \<and> enabled (Event h EvOpen) w \<longrightarrow>
        connect t (fire h EvOpen w) = (Inl AlreadyConnected, fire h EvOpen w))"
proof -
  have "ws (fire h EvOpen w) = Some h" if "reachable t w" "enabled (Event h EvOpen) w"
    using that reachable_consistent [OF that(1)]
    by (simp add: fire_open wired_nth resolve_def)
  then show ?thesis
    by (auto simp: connect_def AlreadyConnected_def isConnected_def Let_def)
qed

theorem connect_guard_witness:
  "isConnected connected \<and> connect lib_api connected = (Inl AlreadyConnected, connected)
   \<and> reachable lib_api connecting \<and> enabled (Event 0 EvOpen) connecting
   \<and> connect lib_api (fire 0 EvOpen connecting) = (Inl AlreadyConnected, fire 0 EvOpen connecting)"
  using connect_guard [of lib_api connected 0] connect_guard [of lib_api connecting 0]
  by (simp add: connected_ws connecting_simps isConnected_def reachable_connecting)

text \<open>
  C2: whenever \<^verbatim>\<open>isConnected()\<close> is false, \<^verbatim>\<open>send\<close> fails with the Not-connected error
  and leaves the world as it was: nothing is dispatched, logged or written. That is
  the case in every world reached from the constructor without an open callback,
  after a \<^verbatim>\<open>disconnect\<close> without a handle or with the owned one, and after the close
  or the error callback of the owned channel.
\<close>

theorem send_not_connected:
  "(\<not> isConnected w \<longrightarrow> send n d g wr w = (Inl NotConnected, w))
   \<and> (\<not> list_ex is_open as \<longrightarrow>
        send n d g wr (run t as (constructor t dbg doc))
          = (Inl NotConnected, run t as (constructor t dbg doc)))
   \<and> (a = None \<or> a = ws w \<longrightarrow>
        send n d g wr (snd (disconnect a w)) = (Inl NotConnected, snd (disconnect a w)))
   \<and> (reachable t w \<and> ws w = Some h \<longrightarrow>
        send n d g wr (fire h EvClose w) = (Inl NotConnected, fire h EvClose w)
        \<and> send n d g wr (fire h (EvError m) w) = (Inl NotConnected, fire h (EvError m) w))"
proof -
  have s: "send n d g wr v = (Inl NotConnected, v)" if "ws v = None" for v
    using that by (simp add: send_def NotConnected_def isConnected_def)
  have "ws (run t as (constructor t dbg doc)) = None" if "\<not> list_ex is_open as"
    using that by (intro run_ws_None) (simp_all add: constructor_def)
  moreover have "ws (snd (disconnect a w)) = None" if "a = None \<or> a = ws w"
    using that by (auto simp: disconnect_def Let_def)
  ultimately show ?thesis
    by (auto simp: s isConnected_def fire_close_owned fire_error_owned)
qed

theorem send_not_connected_witness:
  "\<not> isConnected fresh
   \<and> send (JStr ''ping'') JUndefined sample_id None fresh = (Inl NotConnected, fresh)
   \<and> \<not> list_ex is_open [Connect]
   \<and> send (JStr ''ping'') JUndefined sample_id None connecting = (Inl NotConnected, connecting)
   \<and> send (JStr ''ping'') JUndefined sample_id None (snd (disconnect None connected))
       = (Inl NotConnected, snd (disconnect None connected))
   \<and> reachable lib_api connected \<and> ws connected = Some 0
   \<and> send (JStr ''ping'') JUndefined sample_id None (fire 0 EvClose connected)
       = (Inl NotConnected, fire 0 EvClose connected)
   \<and> send (JStr ''ping'') JUndefined sample_id None (fire 0 (EvError JUndefined) connected)
       = (Inl NotConnected, fire 0 (EvError JUndefined) connected)"
  using send_not_connected [of fresh "JStr ''ping''" JUndefined sample_id None "[Connect]" lib_api
      JUndefined True None 0 JUndefined]
    send_not_connected [of connected "JStr ''ping''" JUndefined sample_id None "[Connect]" lib_api
      JUndefined True None 0 JUndefined]
  by (simp add: isConnected_def connecting_def fresh_def [symmetric] reachable_connected connected_ws)

text \<open>
  C6: \<^verbatim>\<open>disconnect\<close> without a handle or with the owned handle returns true, closes the
  owned channel if there is one (and closes nothing else) and releases it, so that
  \<^verbatim>\<open>isConnected()\<close> is false afterwards; with any other handle it returns without a
  value and without an error and leaves the world as it was.
\<close>

theorem disconnect_spec:
  "(a = None \<or> a = ws w \<longrightarrow>
      fst (disconnect a w) = JBool True
      \<and> \<not> isConnected (snd (disconnect a w))
      \<and> new_effects w (snd (disconnect a w)) = (case ws w of None \<Rightarrow> [] | Some h \<Rightarrow> [WsClose h])
      \<and> (\<forall>h. ws w = Some h \<and> h < length (sockets w) \<longrightarrow>
            readyState (sockets (snd (disconnect a w)) ! h) = closing (readyState (sockets w ! h))))
   \<and> (a \<noteq> None \<and> a \<noteq> ws w \<longrightarrow> disconnect a w = (JUndefined, w))"
  by (auto simp: disconnect_def isConnected_def Let_def ws_close_def map_socket_def new_effects_def
      split: option.splits)

theorem disconnect_spec_witness:
  "fst (disconnect None connected) = JBool True
   \<and> \<not> isConnected (snd (disconnect None connected))
   \<and> new_effects connected (snd (disconnect None connected)) = [WsClose 0]
   \<and> readyState (sockets (snd (disconnect None connected)) ! 0) = CLOSING
   \<and> fst (disconnect (Some 0) connected) = JBool True
   \<and> \<not> isConnected (snd (disconnect (Some 0) connected))
   \<and> Some 7 \<noteq> ws connected
   \<and> disconnect (Some 7) connected = (JUndefined, connected)"
  using disconnect_spec [of None connected] disconnect_spec [of "Some 0" connected]
    disconnect_spec [of "Some 7" connected] owned_facts [OF reachable_connected connected_ws]
  by (simp add: connected_ws)








text \<open>
  C5, as stated, fails: \<^verbatim>\<open>data = data || {}\<close> replaces every falsy argument, not
  only an absent one, by the empty object, and \<^verbatim>\<open>typeof\<close> calls an array an object. So
  0, null, false and an array are accepted.
\<close>

theorem send_accepts_non_mappings:
  "fst (send (JStr ''ping'') (JNum 0) sample_id None connected) = Inr True
   \<and> fst (send (JStr ''ping'') JNull sample_id None connected) = Inr True
   \<and> fst (send (JStr ''ping'') (JBool False) sample_id None connected) = Inr True
   \<and> fst (send (JStr ''ping'') (JArray [JStr ''a'']) sample_id None connected) = Inr True
   \<and> map (\<lambda>(h, v). spread v ''0'')
        (written (new_effects connected
           (snd (send (JStr ''ping'') (JArray [JStr ''a'']) sample_id None connected))))
      = [Some (JStr ''a'')]"
  by (simp add: send_connected [OF connected_ws] connected_debug digit_def Let_def)

text \<open>
  C5, amended: on a connected client \<^verbatim>\<open>send\<close> fails with the Invalid-payload error
  exactly when the data is truthy and not of type \<^verbatim>\<open>'object'\<close> (true, a number other
  than 0 and NaN, a non-empty string, a function), and then nothing is dispatched or
  written; every falsy argument (undefined, null, false, 0, NaN, the empty string) is
  treated as the empty mapping.
\<close>

theorem send_payload_check:
  "isConnected w \<Longrightarrow>
     (fst (send n d g wr w) = Inl InvalidPayload \<longleftrightarrow> truthy d \<and> typeof d \<noteq> ''object'')
     \<and> (truthy d \<and> typeof d \<noteq> ''object'' \<longrightarrow> send n d g wr w = (Inl InvalidPayload, w))
     \<and> (\<not> truthy d \<longrightarrow> send n d g wr w = send n (JObject Map.empty) g wr w)
     \<and> ((truthy d \<and> typeof d \<noteq> ''object'')
          = (case d of JBool b \<Rightarrow> b | JNum i \<Rightarrow> i \<noteq> 0 | JStr s \<Rightarrow> s \<noteq> [] | JFunction f \<Rightarrow> True | _ \<Rightarrow> False))"
proof -
  assume "isConnected w"
  then obtain h where h: "ws w = Some h" by (auto simp: isConnected_def)
  have 1: "fst (send n d g wr w) \<noteq> Inl InvalidPayload" if "\<not> (truthy d \<and> typeof d \<noteq> ''object'')"
    using send_connected [OF h that, of n g wr] by (simp add: Let_def InvalidPayload_def split: option.splits)
  have 2: "(truthy d \<and> typeof d \<noteq> ''object'')
          = (case d of JBool b \<Rightarrow> b | JNum i \<Rightarrow> i \<noteq> 0 | JStr s \<Rightarrow> s \<noteq> [] | JFunction f \<Rightarrow> True | _ \<Rightarrow> False)"
    by (cases d) simp_all
  show ?thesis
    using 1 2 send_invalid [OF h, of d n g wr] send_falsy [of d n g wr w] by auto
qed

theorem send_payload_check_witness:
  "isConnected connected
   \<and> truthy (JStr ''text'') \<and> typeof (JStr ''text'') \<noteq> ''object''
   \<and> send (JStr ''ping'') (JStr ''text'') sample_id None connected = (Inl InvalidPayload, connected)
   \<and> \<not> truthy JUndefined
   \<and> send (JStr ''ping'') JUndefined sample_id None connected
      = send (JStr ''ping'') (JObject Map.empty) sample_id None connected"
  using send_payload_check [of connected "JStr ''ping''" "JStr ''text''" sample_id None]
    send_payload_check [of connected "JStr ''ping''" JUndefined sample_id None] connected_ws
  by (simp add: isConnected_def)

text \<open>
  C7, as stated, fails: \<^verbatim>\<open>disconnect(ws)\<close> releases the channel only when it is the
  owned one. After \<^verbatim>\<open>disconnect()\<close> and a second \<^verbatim>\<open>connect()\<close> that opened, an error
  of the first channel (closing, not yet closed) dispatches its \<^verbatim>\<open>close\<close> event, and
  the client stays connected on the second channel: a later \<^verbatim>\<open>send\<close> succeeds.
\<close>

theorem stale_error_keeps_connection:
  "reachable lib_api reconnected
   \<and> enabled (Event 0 (EvError JUndefined)) reconnected
   \<and> dispatched (new_effects reconnected (fire 0 (EvError JUndefined) reconnected))
       = [(''close'', JObject [''error'' \<mapsto> JBool True])]
   \<and> isConnected (fire 0 (EvError JUndefined) reconnected)
   \<and> fst (send (JStr ''ping'') JUndefined sample_id None (fire 0 (EvError JUndefined) reconnected)) = Inr True"
  by (simp add: reachable_reconnected reconnected_simps fire_error_opened Let_def disconnect_other
       send_connected [where h = 1] isConnected_def new_effects_def)

text \<open>
  C7, amended: when the channel the client owns reports an error, the error callback
  dispatches exactly one event, \<^verbatim>\<open>close\<close> with \<^verbatim>\<open>{error: true}\<close>; the promise of the
  \<^verbatim>\<open>connect\<close> call is fulfilled and stays so (no promise changes); the channel is
  released, and every later \<^verbatim>\<open>send\<close> fails with the Not-connected error as long as no
  open callback has run. When an opened channel that the client does not own reports
  an error, the same single \<^verbatim>\<open>close\<close> event is dispatched and the fields of the
  client are left as they are.
\<close>

theorem post_open_error:
  "reachable t w \<Longrightarrow>
     (ws w = Some h \<longrightarrow>
         dispatched (new_effects w (fire h (EvError m) w)) = [(''close'', JObject [''error'' \<mapsto> JBool True])]
       \<and> promises w ! call (sockets w ! h) = Fulfilled
       \<and> promises (fire h (EvError m) w) = promises w
       \<and> \<not> isConnected (fire h (EvError m) w)
       \<and> (\<forall>as. \<not> list_ex is_open as \<longrightarrow>
             fst (send n d g wr (run t as (fire h (EvError m) w))) = Inl NotConnected))
   \<and> (h < length (sockets w) \<and> opened (sockets w ! h) \<and> ws w \<noteq> Some h \<longrightarrow>
         dispatched (new_effects w (fire h (EvError m) w)) = [(''close'', JObject [''error'' \<mapsto> JBool True])]
       \<and> promises (fire h (EvError m) w) = promises w
       \<and> this_fields (fire h (EvError m) w) = this_fields w)"
proof -
  assume r: "reachable t w"
  have "fst (send n d g wr (run t as (fire h (EvError m) w))) = Inl NotConnected"
    if "ws w = Some h" "\<not> list_ex is_open as" for as
  proof -
    have "ws (run t as (fire h (EvError m) w)) = None"
      using that r by (intro run_ws_None fire_error_owned)
    then show ?thesis by (simp add: send_def isConnected_def NotConnected_def)
  qed
  then show ?thesis
    using r by (auto simp: fire_error_owned_effects fire_error_other owned_fulfilled
        fire_error_owned isConnected_def)
qed

theorem post_open_error_witness:
  "reachable lib_api connected \<and> ws connected = Some 0
   \<and> dispatched (new_effects connected (fire 0 (EvError JUndefined) connected))
       = [(''close'', JObject [''error'' \<mapsto> JBool True])]
   \<and> promises (fire 0 (EvError JUndefined) connected) ! call (sockets connected ! 0) = Fulfilled
   \<and> \<not> isConnected (fire 0 (EvError JUndefined) connected)
   \<and> \<not> list_ex is_open [Connect, Disconnect None]
   \<and> fst (send (JStr ''ping'') JUndefined sample_id None
          (run lib_api [Connect, Disconnect None] (fire 0 (EvError JUndefined) connected))) = Inl NotConnected
   \<and> reachable lib_api reconnected \<and> 0 < length (sockets reconnected)
   \<and> opened (sockets reconnected ! 0) \<and> ws reconnected \<noteq> Some 0
   \<and> this_fields (fire 0 (EvError JUndefined) reconnected) = this_fields reconnected"
proof -
  note a = post_open_error [OF reachable_connected, of 0 JUndefined "JStr ''ping''" JUndefined sample_id None]
  note b = post_open_error [OF reachable_reconnected, of 0 JUndefined "JStr ''ping''" JUndefined sample_id None]
  have "\<not> list_ex is_open [Connect, Disconnect None]" by simp
  with a b show ?thesis
    using reachable_connected connected_ws reachable_reconnected reconnected_simps
    by (auto simp del: run.simps)
qed

text \<open>
  C9, as stated, fails: the open callback assigns \<^verbatim>\<open>this.ws = ws\<close> without comparing
  handles. After \<^verbatim>\<open>connect()\<close>, \<^verbatim>\<open>disconnect()\<close> (which closes nothing, no channel
  being owned yet) and a second \<^verbatim>\<open>connect()\<close> whose channel opened, the late open of
  the first channel replaces the owned channel.
\<close>

theorem late_open_takes_over:
  "admissible lib_api [Connect, Disconnect None, Connect, Event 1 EvOpen, Event 0 EvOpen] fresh
   \<and> ws (run lib_api [Connect, Disconnect None, Connect, Event 1 EvOpen] fresh) = Some 1
   \<and> ws (run lib_api [Connect, Disconnect None, Connect, Event 1 EvOpen, Event 0 EvOpen] fresh) = Some 0"
  by (simp add: turn_defs nth_append)

text \<open>
  C9, amended: in every reachable world the client owns at most one channel (the field
  \<open>ws\<close>), and an owned channel is one it constructed and that is open; a message,
  error or close callback of a channel other than the owned one leaves the fields of
  the client and every other channel as they are (\<^verbatim>\<open>disconnect\<close> compares the handle
  with the owned one first). The open callback of a channel makes that channel the
  owned one, whatever was owned before.
\<close>

theorem owned_channel_invariant:
  "reachable t w \<Longrightarrow>
     (\<forall>h. ws w = Some h \<longrightarrow> h < length (sockets w) \<and> readyState (sockets w ! h) = OPEN)
     \<and> (\<forall>h ev. h < length (sockets w) \<and> ws w \<noteq> Some h \<and> ev \<noteq> EvOpen \<longrightarrow>
           this_fields (fire h ev w) = this_fields w
           \<and> (\<forall>k. k \<noteq> h \<longrightarrow> sockets (fire h ev w) ! k = sockets w ! k))
     \<and> (\<forall>h. enabled (Event h EvOpen) w \<longrightarrow> ws (fire h EvOpen w) = Some h)"
proof -
  assume r: "reachable t w"
  have "ws (fire h EvOpen w) = Some h" if "enabled (Event h EvOpen) w" for h
    using that reachable_consistent [OF r]
    by (simp add: fire_open wired_nth resolve_def)
  then show ?thesis
    using r by (auto simp: owned_facts fire_other_fields)
qed

theorem owned_channel_invariant_witness:
  "reachable lib_api reconnected \<and> ws reconnected = Some 1
   \<and> 1 < length (sockets reconnected) \<and> readyState (sockets reconnected ! 1) = OPEN
   \<and> 0 < length (sockets reconnected) \<and> ws reconnected \<noteq> Some 0
   \<and> this_fields (fire 0 EvClose reconnected) = this_fields reconnected
   \<and> sockets (fire 0 EvClose reconnected) ! 1 = sockets reconnected ! 1
   \<and> reachable lib_api connecting \<and> enabled (Event 0 EvOpen) connecting
   \<and> ws (fire 0 EvOpen connecting) = Some 0"
proof -
  note a = owned_channel_invariant [OF reachable_reconnected]
  note b = owned_channel_invariant [OF reachable_connecting]
  have e: "enabled (Event 0 EvOpen) connecting" by (simp add: connecting_simps)
  from a have "this_fields (fire 0 EvClose reconnected) = this_fields reconnected
      \<and> sockets (fire 0 EvClose reconnected) ! 1 = sockets reconnected ! 1"
    using reconnected_simps by auto
  moreover from a have "1 < length (sockets reconnected) \<and> readyState (sockets reconnected ! 1) = OPEN"
    using reconnected_simps by auto
  moreover from b e have "ws (fire 0 EvOpen connecting) = Some 0" by blast
  ultimately show ?thesis
    using reachable_reconnected reachable_connecting reconnected_simps e by simp
qed

text \<open>
  C10: the two source files are the same class but for the connection target. The
  worlds of the two constructors are equivalent; in equivalent worlds \<^verbatim>\<open>isConnected\<close>,
  \<^verbatim>\<open>log\<close>, \<^verbatim>\<open>connect\<close>, \<^verbatim>\<open>disconnect\<close>, \<^verbatim>\<open>receive\<close> and \<^verbatim>\<open>send\<close> return the same
  result and lead to equivalent worlds, for every argument; so does every callback of a
  channel that exists, and the platform can deliver the same events to both; so every
  run of one is a run of the other. Equivalent worlds differ in the resource name, the deployment name and the
  URL, and in nothing else but the URL inside the channel's address, the log lines and
  the connect-failure message.
\<close>

theorem two_sources_equivalent:
  "equivalent lib_api part_000 (constructor lib_api dbg doc) (constructor part_000 dbg doc)
   \<and> (equivalent lib_api part_000 w w' \<longrightarrow>
         isConnected w = isConnected w'
       \<and> fst (log args w) = fst (log args w')
       \<and> equivalent lib_api part_000 (snd (log args w)) (snd (log args w'))
       \<and> fst (connect lib_api w) = fst (connect part_000 w')
       \<and> equivalent lib_api part_000 (snd (connect lib_api w)) (snd (connect part_000 w'))
       \<and> fst (disconnect x w) = fst (disconnect x w')
       \<and> equivalent lib_api part_000 (snd (disconnect x w)) (snd (disconnect x w'))
       \<and> fst (receive n p w) = fst (receive n p w')
       \<and> equivalent lib_api part_000 (snd (receive n p w)) (snd (receive n p w'))
       \<and> fst (send n d g wr w) = fst (send n d g wr w')
       \<and> equivalent lib_api part_000 (snd (send n d g wr w)) (snd (send n d g wr w'))
       \<and> enabled act w = enabled act w'
       \<and> (addressed act w \<longrightarrow>
            equivalent lib_api part_000 (step lib_api act w) (step part_000 act w')))
   \<and> (admissible lib_api as (constructor lib_api dbg doc) \<longrightarrow>
         admissible part_000 as (constructor part_000 dbg doc)
       \<and> equivalent lib_api part_000
            (run lib_api as (constructor lib_api dbg doc)) (run part_000 as (constructor part_000 dbg doc)))"
proof -
  have m: "isConnected w = isConnected w'
       \<and> fst (log args w) = fst (log args w')
       \<and> fst (connect lib_api w) = fst (connect part_000 w')
       \<and> fst (disconnect x w) = fst (disconnect x w')
       \<and> fst (receive n p w) = fst (receive n p w')
       \<and> fst (send n d g wr w) = fst (send n d g wr w')" if "equivalent lib_api part_000 w w'"
  proof -
    from that have r: "rel_world (fullUrl lib_api w) (fullUrl part_000 w') w w'"
      by (simp add: equivalent_def)
    then have "ws w = ws w'" by (simp add: rel_world_def)
    then show ?thesis
      using rel_connect(1) [OF r refl refl] rel_disconnect(1) [OF r, of x] rel_send [OF r, of n d g wr]
      by (simp add: isConnected_def log_def receive_def Let_def)
  qed
  have s: "equivalent lib_api part_000 (snd (log args w)) (snd (log args w'))
       \<and> equivalent lib_api part_000 (snd (connect lib_api w)) (snd (connect part_000 w'))
       \<and> equivalent lib_api part_000 (snd (disconnect x w)) (snd (disconnect x w'))
       \<and> equivalent lib_api part_000 (snd (receive n p w)) (snd (receive n p w'))
       \<and> equivalent lib_api part_000 (snd (send n d g wr w)) (snd (send n d g wr w'))"
    if e: "equivalent lib_api part_000 w w'"
    using equivalent_step [OF e, of "Log args"] equivalent_step [OF e, of Connect]
      equivalent_step [OF e, of "Disconnect x"] equivalent_step [OF e, of "Receive n p"]
      equivalent_step [OF e, of "Send n d g wr"]
    by simp
  show ?thesis
    using m s equivalent_step [of lib_api part_000 w w' act] equivalent_enabled [of lib_api part_000 w w' act]
      equivalent_run [OF equivalent_init, of lib_api as dbg doc part_000]
    by (simp add: equivalent_init)
qed

theorem two_sources_equivalent_witness:
  "admissible lib_api
      [Connect, Event 0 EvOpen, Send (JStr ''ping'') JUndefined sample_id None, Event 0 (EvError JUndefined)]
      (constructor lib_api JUndefined True)
   \<and> admissible part_000
      [Connect, Event 0 EvOpen, Send (JStr ''ping'') JUndefined sample_id None, Event 0 (EvError JUndefined)]
      (constructor part_000 JUndefined True)
   \<and> equivalent lib_api part_000
       (run lib_api
          [Connect, Event 0 EvOpen, Send (JStr ''ping'') JUndefined sample_id None, Event 0 (EvError JUndefined)]
          (constructor lib_api JUndefined True))
       (run part_000
          [Connect, Event 0 EvOpen, Send (JStr ''ping'') JUndefined sample_id None, Event 0 (EvError JUndefined)]
          (constructor part_000 JUndefined True))
   \<and> equivalent lib_api part_000 (constructor lib_api JUndefined True) (constructor part_000 JUndefined True)
   \<and> fst (connect lib_api (constructor lib_api JUndefined True))
       = fst (connect part_000 (constructor part_000 JUndefined True))
   \<and> addressed Connect (constructor lib_api JUndefined True)
   \<and> equivalent lib_api part_000
        (step lib_api Connect (constructor lib_api JUndefined True))
        (step part_000 Connect (constructor part_000 JUndefined True))"
proof -
  let ?as = "[Connect, Event 0 EvOpen, Send (JStr ''ping'') JUndefined sample_id None, Event 0 (EvError JUndefined)]"
  note t = two_sources_equivalent [of JUndefined True "constructor lib_api JUndefined True"
      "constructor part_000 JUndefined True" "[]" None JUndefined JUndefined JUndefined sample_id None Connect ?as]
  have a: "admissible lib_api ?as (constructor lib_api JUndefined True)"
    unfolding fresh_def [symmetric] by (simp add: turn_defs send_def)
  have "addressed Connect (constructor lib_api JUndefined True)" by simp
  with t a show ?thesis by blast
qed

end
